theory Spec2Isabelle
  imports Complex_Main
begin

text \<open>
  A model of the video transcript indexer: \<^verbatim>\<open>create_chunks\<close>, \<^verbatim>\<open>get_embedding\<close>,
  \<^verbatim>\<open>index_video_transcript\<close> and \<^verbatim>\<open>search_videos\<close> of \<^verbatim>\<open>indexer.py\<close>, and
  \<^verbatim>\<open>get_transcript\<close> and \<^verbatim>\<open>get_json_transcript\<close> of \<^verbatim>\<open>transcript.py\<close>. A function
  that can raise returns \<open>exn + 'a\<close>; a function that talks to the embedding service or to
  the vector store takes the state of the world and returns it with its result; a function
  that adds floats takes the rounding of float arithmetic. Console
  output and progress bars are left out, as is the configuration that \<^verbatim>\<open>indexer.py\<close> does
  when it is imported.
\<close>

section \<open>Python values and library functions used by the indexer\<close>

text \<open>
  A Python exception is a value: the name of its class and its message. Every
  \<^verbatim>\<open>raise\<close> of the source is an \<open>Inl\<close> of the result type \<open>exn + 'a\<close>.
\<close>

datatype exn = Exn (exn_class: string) (exn_msg: string)

abbreviation ValueError :: "string \<Rightarrow> exn" where
  "ValueError m \<equiv> Exn ''ValueError'' m"

abbreviation TypeError :: "string \<Rightarrow> exn" where
  "TypeError m \<equiv> Exn ''TypeError'' m"

abbreviation IndexError :: "string \<Rightarrow> exn" where
  "IndexError m \<equiv> Exn ''IndexError'' m"

abbreviation OverflowError :: "string \<Rightarrow> exn" where
  "OverflowError m \<equiv> Exn ''OverflowError'' m"

text \<open>
  \<^verbatim>\<open>except Exception\<close> catches the exceptions whose class derives from \<^verbatim>\<open>Exception\<close>.
  Of the built-in classes, these do not: they derive from \<^verbatim>\<open>BaseException\<close> only. A
  class that the model does not know is taken to derive from \<^verbatim>\<open>Exception\<close>, as the
  exceptions of the collaborators' libraries do.
\<close>

definition derives_from_Exception :: "exn \<Rightarrow> bool" where
  "derives_from_Exception e =
     (exn_class e \<notin> set [''BaseException'', ''KeyboardInterrupt'', ''SystemExit'', ''GeneratorExit''])"

text \<open>
  Seconds are Python floats in the source. The model takes a float as the real number it
  stands for (NaN and infinities are outside the model) and float addition as the exact
  sum rounded to a float. The rounding \<open>rnd\<close> is a parameter: the theorems that need
  something of it say what (it is monotone, and it leaves a float as it is).
\<close>

type_synonym seconds = real

definition float_add :: "(real \<Rightarrow> real) \<Rightarrow> seconds \<Rightarrow> seconds \<Rightarrow> seconds" where
  "float_add rnd a b = rnd (a + b)"

text \<open>\<^verbatim>\<open>sep.join(xs)\<close>\<close>

fun join :: "string \<Rightarrow> string list \<Rightarrow> string" where
  "join sep [] = []"
| "join sep [x] = x"
| "join sep (x # y # ys) = x @ sep @ join sep (y # ys)"

text \<open>\<^verbatim>\<open>range(i, stop, step)\<close> for a step that is not zero, as the list it iterates over.\<close>

function py_range :: "int \<Rightarrow> int \<Rightarrow> int \<Rightarrow> int list" where
  "py_range i stop step =
     (if (0 < step \<and> i < stop) \<or> (step < 0 \<and> stop < i)
      then i # py_range (i + step) stop step
      else [])"
  by pat_completeness auto
termination
  by (relation "measure (\<lambda>(i, stop, step). nat (if 0 < step then stop - i else i - stop))") auto

text \<open>\<^verbatim>\<open>range(start, stop, step)\<close>: a zero step raises ValueError.\<close>

definition range3 :: "int \<Rightarrow> int \<Rightarrow> int \<Rightarrow> exn + int list" where
  "range3 start stop step =
     (if step = 0 then Inl (ValueError ''range() arg 3 must not be zero'')
      else Inr (py_range start stop step))"

text \<open>
  \<^verbatim>\<open>xs[lo:hi]\<close>: a negative bound counts from the end, and both bounds are clipped
  to the list, so a slice never raises.
\<close>

definition slice_bound :: "nat \<Rightarrow> int \<Rightarrow> nat" where
  "slice_bound n j = (if j < 0 then nat (max 0 (j + int n)) else min (nat j) n)"

definition py_slice :: "'a list \<Rightarrow> int \<Rightarrow> int \<Rightarrow> 'a list" where
  "py_slice xs lo hi =
     (let a = slice_bound (length xs) lo; b = slice_bound (length xs) hi
      in take (b - a) (drop a xs))"

text \<open>\<^verbatim>\<open>xs[i]\<close>: a negative index counts from the end; out of range raises IndexError.\<close>

definition py_index :: "'a list \<Rightarrow> int \<Rightarrow> exn + 'a" where
  "py_index xs i =
     (if 0 \<le> i \<and> i < int (length xs) then Inr (xs ! nat i)
      else if i < 0 \<and> - int (length xs) \<le> i then Inr (xs ! nat (int (length xs) + i))
      else Inl (IndexError ''list index out of range''))"

text \<open>\<^verbatim>\<open>int(x)\<close> of a float: truncation towards zero.\<close>

definition py_int :: "seconds \<Rightarrow> int" where
  "py_int x = (if 0 \<le> x then \<lfloor>x\<rfloor> else \<lceil>x\<rceil>)"

text \<open>\<^verbatim>\<open>str(n)\<close> and \<^verbatim>\<open>"%d" % n\<close> of an integer, in decimal.\<close>

definition digit_char :: "nat \<Rightarrow> char" where
  "digit_char d = ''0123456789'' ! d"

fun str_nat :: "nat \<Rightarrow> string" where
  "str_nat n = (if n < 10 then [digit_char n] else str_nat (n div 10) @ [digit_char (n mod 10)])"

definition str_int :: "int \<Rightarrow> string" where
  "str_int i = (if i < 0 then CHR ''-'' # str_nat (nat (- i)) else str_nat (nat i))"

text \<open>\<^verbatim>\<open>"%02d" % n\<close>: zero-padded to width two.\<close>

definition pad2 :: "int \<Rightarrow> string" where
  "pad2 i = (let s = str_int i in replicate (2 - length s) CHR ''0'' @ s)"

text \<open>
  \<^verbatim>\<open>timedelta(seconds=s)\<close> for an integer \<open>s\<close>: the constructor normalises to days and
  seconds within the day, and raises OverflowError when the day count is beyond 999999999
  in magnitude (with the messages of CPython's implementation: one for a day count that
  fits a C int, one for a larger one).
\<close>

definition timedelta :: "int \<Rightarrow> exn + int \<times> int" where
  "timedelta s =
     (let days = s div 86400; secs = s mod 86400
      in if \<bar>days\<bar> \<le> 999999999 then Inr (days, secs)
         else if - 2147483648 \<le> days \<and> days \<le> 2147483647
         then Inl (OverflowError (''days='' @ str_int days @ ''; must have magnitude <= 999999999''))
         else Inl (OverflowError ''Python int too large to convert to C int''))"

text \<open>
  \<^verbatim>\<open>str\<close> of a timedelta without microseconds: \<^verbatim>\<open>"%d:%02d:%02d"\<close>, with the day count
  in front when it is not zero.
\<close>

definition str_timedelta :: "int \<times> int \<Rightarrow> string" where
  "str_timedelta d =
     (let days = fst d; secs = snd d;
          mm = secs div 60; ss = secs mod 60;
          hh = mm div 60; mm = mm mod 60;
          hms = str_int hh @ '':'' @ pad2 mm @ '':'' @ pad2 ss
      in if days \<noteq> 0
         then str_int days @ '' day'' @ (if \<bar>days\<bar> \<noteq> 1 then ''s'' else '''') @ '', '' @ hms
         else hms)"

text \<open>\<^verbatim>\<open>str(timedelta(seconds=s))\<close>\<close>

definition timedelta_str :: "int \<Rightarrow> exn + string" where
  "timedelta_str s = (case timedelta s of Inl e \<Rightarrow> Inl e | Inr d \<Rightarrow> Inr (str_timedelta d))"

section \<open>The chunker (indexer.py, create_chunks)\<close>

record caption_entry =
  e_text :: string
  e_start :: seconds
  e_duration :: seconds

record chunk =
  c_text :: string
  c_start_time :: seconds
  c_end_time :: seconds
  c_start_formatted :: string
  c_end_formatted :: string

text \<open>
  The body of the loop: one chunk from one slice of the transcript. The sum is a float
  addition; each of the two \<^verbatim>\<open>str(timedelta(...))\<close> can raise.
\<close>

definition chunk_of :: "(real \<Rightarrow> real) \<Rightarrow> caption_entry list \<Rightarrow> exn + chunk" where
  "chunk_of rnd chunk =
     (let txt = join '' '' (map e_text chunk) in
      case py_index chunk 0 of
        Inl e \<Rightarrow> Inl e
      | Inr first \<Rightarrow>
          (case py_index chunk (- 1) of
             Inl e \<Rightarrow> Inl e
           | Inr lst \<Rightarrow>
               (let start_time = e_start first;
                    end_time = float_add rnd (e_start lst) (e_duration lst)
                in case timedelta_str (py_int start_time) of
                     Inl e \<Rightarrow> Inl e
                   | Inr start_formatted \<Rightarrow>
                       (case timedelta_str (py_int end_time) of
                          Inl e \<Rightarrow> Inl e
                        | Inr end_formatted \<Rightarrow>
                            Inr \<lparr>c_text = txt,
                                 c_start_time = start_time,
                                 c_end_time = end_time,
                                 c_start_formatted = start_formatted,
                                 c_end_formatted = end_formatted\<rparr>))))"

text \<open>The loop over \<^verbatim>\<open>range(0, len(transcript_data), chunk_size)\<close>, appending to \<open>chunks\<close>.\<close>

fun chunks_loop ::
  "(real \<Rightarrow> real) \<Rightarrow> caption_entry list \<Rightarrow> int \<Rightarrow> int list \<Rightarrow> chunk list \<Rightarrow> exn + chunk list" where
  "chunks_loop rnd transcript_data chunk_size [] chunks = Inr chunks"
| "chunks_loop rnd transcript_data chunk_size (i # is) chunks =
     (case chunk_of rnd (py_slice transcript_data i (i + chunk_size)) of
        Inl e \<Rightarrow> Inl e
      | Inr c \<Rightarrow> chunks_loop rnd transcript_data chunk_size is (chunks @ [c]))"

definition create_chunks :: "(real \<Rightarrow> real) \<Rightarrow> caption_entry list \<Rightarrow> int \<Rightarrow> exn + chunk list" where
  "create_chunks rnd transcript_data chunk_size =
     (case range3 0 (int (length transcript_data)) chunk_size of
        Inl e \<Rightarrow> Inl e
      | Inr is \<Rightarrow> chunks_loop rnd transcript_data chunk_size is [])"

section \<open>The transcript source (transcript.py)\<close>

text \<open>
  \<^verbatim>\<open>YouTubeTranscriptApi.get_transcript\<close> is a collaborator outside the repository:
  for a video id it returns the caption entries or raises.
\<close>

type_synonym transcript_api = "string \<Rightarrow> exn + caption_entry list"

text \<open>
  \<^verbatim>\<open>get_transcript\<close> catches the exceptions of the collaborator that derive from
  \<^verbatim>\<open>Exception\<close>, prints them and returns \<^verbatim>\<open>None\<close>; any other exception goes on to the
  caller.
\<close>

definition get_transcript :: "transcript_api \<Rightarrow> string \<Rightarrow> exn + caption_entry list option" where
  "get_transcript api video_id =
     (case api video_id of
        Inr transcript \<Rightarrow> Inr (Some transcript)
      | Inl e \<Rightarrow> if derives_from_Exception e then Inr None else Inl e)"

text \<open>
  \<^verbatim>\<open>json.dumps\<close> of what \<^verbatim>\<open>get_transcript\<close> returns: \<^verbatim>\<open>None\<close> is the text \<^verbatim>\<open>null\<close>; the
  encoding of a list of entries is a parameter.
\<close>

definition json_dumps :: "(caption_entry list \<Rightarrow> string) \<Rightarrow> caption_entry list option \<Rightarrow> string" where
  "json_dumps encode v = (case v of None \<Rightarrow> ''null'' | Some transcript \<Rightarrow> encode transcript)"

definition get_json_transcript ::
  "(caption_entry list \<Rightarrow> string) \<Rightarrow> transcript_api \<Rightarrow> string \<Rightarrow> exn + string" where
  "get_json_transcript encode api video_id =
     (case get_transcript api video_id of
        Inl e \<Rightarrow> Inl e
      | Inr transcript_data \<Rightarrow> Inr (json_dumps encode transcript_data))"

section \<open>The environment, the embedding service and the vector store\<close>

text \<open>The environment variables that the indexer reads with \<^verbatim>\<open>os.getenv\<close>.\<close>

record environ =
  PINECONE_API_KEY :: "string option"
  PINECONE_INDEX_NAME :: "string option"

type_synonym vector = "real list"

record metadata =
  md_video_id :: string
  md_text :: string
  md_start_time :: seconds
  md_end_time :: seconds
  md_start_formatted :: string
  md_end_formatted :: string

record vector_record =
  v_id :: string
  v_values :: vector
  v_metadata :: metadata

record match =
  m_id :: string
  m_score :: real
  m_metadata :: metadata

text \<open>What \<^verbatim>\<open>json.loads\<close> gives for the documents that \<^verbatim>\<open>get_json_transcript\<close> writes.\<close>

datatype transcript_json = JNull | JEntries "caption_entry list"

text \<open>The calls that leave the process, in the order they are made.\<close>

datatype call =
    PineconeIndex string string
  | EmbedContent string string string
  | Upsert string vector_record
  | Query string vector int bool

text \<open>
  The collaborators answer as functions of their arguments. \<open>embed_content\<close> is
  \<^verbatim>\<open>genai.embed_content(model, content, task_type)\<close>; \<open>open_index\<close> is
  \<^verbatim>\<open>Pinecone(api_key).Index(index_name)\<close>, which may raise; \<open>upsert_fault\<close> and
  \<open>query_fault\<close> say when the store refuses a request; \<open>metric\<close> is the store's
  similarity score; \<open>json_loads\<close> is \<^verbatim>\<open>json.loads\<close>; \<open>float_round\<close> is the rounding of
  float arithmetic.
\<close>

record services =
  embed_content :: "string \<Rightarrow> string \<Rightarrow> string \<Rightarrow> exn + vector"
  open_index :: "string \<Rightarrow> string \<Rightarrow> exn option"
  upsert_fault :: "string \<Rightarrow> vector_record \<Rightarrow> exn option"
  query_fault :: "string \<Rightarrow> vector \<Rightarrow> int \<Rightarrow> exn option"
  metric :: "vector \<Rightarrow> vector \<Rightarrow> real"
  json_loads :: "string \<Rightarrow> exn + transcript_json"
  float_round :: "real \<Rightarrow> real"

text \<open>
  The state outside the process: the contents of every index of the vector store, by
  index name, and the calls made so far.
\<close>

datatype world =
  World (indexes: "string \<Rightarrow> vector_record list") (calls: "call list")

text \<open>
  Modelled from the spec: the vector store is a collaborator outside the repository.
  An upsert is the insert-or-overwrite of the entry with the record's id.
\<close>

fun store_upsert :: "vector_record \<Rightarrow> vector_record list \<Rightarrow> vector_record list" where
  "store_upsert r [] = [r]"
| "store_upsert r (x # xs) = (if v_id x = v_id r then r # xs else x # store_upsert r xs)"

text \<open>
  Modelled from the spec: a top-k query returns the \<open>k\<close> stored vectors of highest
  similarity score, in descending order of score, with their metadata.
\<close>

definition store_query ::
  "(vector \<Rightarrow> vector \<Rightarrow> real) \<Rightarrow> vector_record list \<Rightarrow> vector \<Rightarrow> int \<Rightarrow> match list" where
  "store_query score st q top_k =
     take (nat top_k)
       (sort_key (\<lambda>m. - m_score m)
          (map (\<lambda>r. \<lparr>m_id = v_id r, m_score = score q (v_values r), m_metadata = v_metadata r\<rparr>) st))"

definition record_call :: "call \<Rightarrow> world \<Rightarrow> world" where
  "record_call c w = World (indexes w) (calls w @ [c])"

text \<open>\<^verbatim>\<open>index.upsert(vectors=[r])\<close> on the index named \<open>index_name\<close>.\<close>

definition index_upsert :: "services \<Rightarrow> string \<Rightarrow> vector_record \<Rightarrow> world \<Rightarrow> (exn + unit) \<times> world" where
  "index_upsert svc index_name r w =
     (let w1 = record_call (Upsert index_name r) w in
      case upsert_fault svc index_name r of
        Some e \<Rightarrow> (Inl e, w1)
      | None \<Rightarrow>
          (Inr (),
           World ((indexes w1)(index_name := store_upsert r (indexes w1 index_name))) (calls w1)))"

text \<open>\<^verbatim>\<open>index.query(vector=q, top_k=top_k, include_metadata=True)\<close>.\<close>

definition index_query ::
  "services \<Rightarrow> string \<Rightarrow> vector \<Rightarrow> int \<Rightarrow> world \<Rightarrow> (exn + match list) \<times> world" where
  "index_query svc index_name q top_k w =
     (let w1 = record_call (Query index_name q top_k True) w in
      case query_fault svc index_name q top_k of
        Some e \<Rightarrow> (Inl e, w1)
      | None \<Rightarrow> (Inr (store_query (metric svc) (indexes w1 index_name) q top_k), w1))"

section \<open>The indexer (indexer.py)\<close>

text \<open>
  \<^verbatim>\<open>get_embedding\<close>: one call of the embedding service, always with the model
  \<^verbatim>\<open>models/embedding-001\<close> and the task type \<^verbatim>\<open>retrieval_document\<close>; an exception is
  printed and raised again.
\<close>

definition get_embedding :: "services \<Rightarrow> string \<Rightarrow> world \<Rightarrow> (exn + vector) \<times> world" where
  "get_embedding svc txt w =
     (let embedding_model = ''models/embedding-001'' in
      (embed_content svc embedding_model txt ''retrieval_document'',
       record_call (EmbedContent embedding_model txt ''retrieval_document'') w))"

text \<open>\<^verbatim>\<open>index_name or os.getenv("PINECONE_INDEX_NAME", "video-search")\<close>\<close>

definition resolve_index_name :: "environ \<Rightarrow> string option \<Rightarrow> string" where
  "resolve_index_name env index_name =
     (let from_env = (case PINECONE_INDEX_NAME env of Some v \<Rightarrow> v | None \<Rightarrow> ''video-search'')
      in case index_name of
           None \<Rightarrow> from_env
         | Some n \<Rightarrow> if n = [] then from_env else n)"

text \<open>\<^verbatim>\<open>f"{video_id}_chunk_{i}"\<close>\<close>

definition chunk_id :: "string \<Rightarrow> nat \<Rightarrow> string" where
  "chunk_id video_id i = video_id @ ''_chunk_'' @ str_nat i"

definition chunk_record :: "string \<Rightarrow> nat \<Rightarrow> chunk \<Rightarrow> vector \<Rightarrow> vector_record" where
  "chunk_record video_id i chunk embedding =
     \<lparr>v_id = chunk_id video_id i,
      v_values = embedding,
      v_metadata =
        \<lparr>md_video_id = video_id,
         md_text = c_text chunk,
         md_start_time = c_start_time chunk,
         md_end_time = c_end_time chunk,
         md_start_formatted = c_start_formatted chunk,
         md_end_formatted = c_end_formatted chunk\<rparr>\<rparr>"

text \<open>The loop \<^verbatim>\<open>for i, chunk in enumerate(chunks)\<close>, from ordinal \<open>i\<close> on.\<close>

fun upsert_chunks ::
  "services \<Rightarrow> string \<Rightarrow> string \<Rightarrow> nat \<Rightarrow> chunk list \<Rightarrow> world \<Rightarrow> (exn + unit) \<times> world" where
  "upsert_chunks svc index_name video_id i [] w = (Inr (), w)"
| "upsert_chunks svc index_name video_id i (chunk # chunks) w =
     (case get_embedding svc (c_text chunk) w of
        (Inl e, w1) \<Rightarrow> (Inl e, w1)
      | (Inr embedding, w1) \<Rightarrow>
          (case index_upsert svc index_name (chunk_record video_id i chunk embedding) w1 of
             (Inl e, w2) \<Rightarrow> (Inl e, w2)
           | (Inr u, w2) \<Rightarrow> upsert_chunks svc index_name video_id (Suc i) chunks w2))"

text \<open>
  \<^verbatim>\<open>create_chunks(transcript)\<close> on what \<^verbatim>\<open>json.loads\<close> returned; the chunk size is the
  default 3. \<^verbatim>\<open>len(None)\<close> raises TypeError.
\<close>

definition chunks_of_json :: "(real \<Rightarrow> real) \<Rightarrow> transcript_json \<Rightarrow> exn + chunk list" where
  "chunks_of_json rnd transcript =
     (case transcript of
        JNull \<Rightarrow> Inl (TypeError ''object of type 'NoneType' has no len()'')
      | JEntries td \<Rightarrow> create_chunks rnd td 3)"

text \<open>
  \<^verbatim>\<open>index_video_transcript\<close>. The \<^verbatim>\<open>except\<close> clause prints the exception and raises it
  again, so the result is the exception as it was raised.
\<close>

definition index_video_transcript ::
  "environ \<Rightarrow> services \<Rightarrow> string \<Rightarrow> string \<Rightarrow> string option \<Rightarrow> world \<Rightarrow> (exn + unit) \<times> world" where
  "index_video_transcript env svc video_id transcript_data index_name w =
     (let index_name = resolve_index_name env index_name in
      case PINECONE_API_KEY env of
        None \<Rightarrow> (Inl (ValueError ''PINECONE_API_KEY not found in environment variables''), w)
      | Some key \<Rightarrow>
          if key = [] then
            (Inl (ValueError ''PINECONE_API_KEY not found in environment variables''), w)
          else
            (let w1 = record_call (PineconeIndex key index_name) w in
             case open_index svc key index_name of
               Some e \<Rightarrow> (Inl e, w1)
             | None \<Rightarrow>
                 (case json_loads svc transcript_data of
                    Inl e \<Rightarrow> (Inl e, w1)
                  | Inr transcript \<Rightarrow>
                      (case chunks_of_json (float_round svc) transcript of
                         Inl e \<Rightarrow> (Inl e, w1)
                       | Inr chunks \<Rightarrow> upsert_chunks svc index_name video_id 0 chunks w1))))"

record search_result =
  r_video_id :: string
  r_text :: string
  r_start_time :: seconds
  r_end_time :: seconds
  r_start_formatted :: string
  r_end_formatted :: string
  r_score :: real

definition result_of_match :: "match \<Rightarrow> search_result" where
  "result_of_match m =
     \<lparr>r_video_id = md_video_id (m_metadata m),
      r_text = md_text (m_metadata m),
      r_start_time = md_start_time (m_metadata m),
      r_end_time = md_end_time (m_metadata m),
      r_start_formatted = md_start_formatted (m_metadata m),
      r_end_formatted = md_end_formatted (m_metadata m),
      r_score = m_score m\<rparr>"

definition search_videos ::
  "environ \<Rightarrow> services \<Rightarrow> string \<Rightarrow> int \<Rightarrow> string option \<Rightarrow> world
     \<Rightarrow> (exn + search_result list) \<times> world" where
  "search_videos env svc query top_k index_name w =
     (let index_name = resolve_index_name env index_name in
      case PINECONE_API_KEY env of
        None \<Rightarrow> (Inl (ValueError ''PINECONE_API_KEY not found in environment variables''), w)
      | Some key \<Rightarrow>
          if key = [] then
            (Inl (ValueError ''PINECONE_API_KEY not found in environment variables''), w)
          else
            (let w1 = record_call (PineconeIndex key index_name) w in
             case open_index svc key index_name of
               Some e \<Rightarrow> (Inl e, w1)
             | None \<Rightarrow>
                 (case get_embedding svc query w1 of
                    (Inl e, w2) \<Rightarrow> (Inl e, w2)
                  | (Inr query_embedding, w2) \<Rightarrow>
                      (case index_query svc index_name query_embedding top_k w2 of
                         (Inl e, w3) \<Rightarrow> (Inl e, w3)
                       | (Inr results, w3) \<Rightarrow> (Inr (map result_of_match results), w3)))))"

section \<open>Auxiliary definitions for the proofs\<close>

text \<open>
  The string of \<^verbatim>\<open>str(timedelta(seconds=s))\<close> where the constructor does not raise, and
  the \<open>s\<close> for which it does not.
\<close>

definition format_seconds :: "int \<Rightarrow> string" where
  "format_seconds s = str_timedelta (s div 86400, s mod 86400)"

definition in_timedelta_range :: "int \<Rightarrow> bool" where
  "in_timedelta_range s = (\<bar>s div 86400\<bar> \<le> 999999999)"

text \<open>
  The chunk built from a non-empty group of entries, and the group that the loop
  takes at index \<open>j\<close>; the loop is shown to compute exactly these, or to raise.
\<close>

definition chunk_fields :: "(real \<Rightarrow> real) \<Rightarrow> caption_entry list \<Rightarrow> chunk" where
  "chunk_fields rnd g =
     \<lparr>c_text = join '' '' (map e_text g),
      c_start_time = e_start (hd g),
      c_end_time = rnd (e_start (last g) + e_duration (last g)),
      c_start_formatted = format_seconds (py_int (e_start (hd g))),
      c_end_formatted = format_seconds (py_int (rnd (e_start (last g) + e_duration (last g))))\<rparr>"

text \<open>
  The start time and the end time of the chunk of a group, truncated to whole seconds,
  are within the range of \<^verbatim>\<open>timedelta\<close>; and this holds for every group that the loop
  takes from a transcript.
\<close>

definition chunk_times_ok :: "(real \<Rightarrow> real) \<Rightarrow> caption_entry list \<Rightarrow> bool" where
  "chunk_times_ok rnd g =
     (in_timedelta_range (py_int (e_start (hd g)))
      \<and> in_timedelta_range (py_int (rnd (e_start (last g) + e_duration (last g)))))"

definition chunk_times_in_range :: "(real \<Rightarrow> real) \<Rightarrow> caption_entry list \<Rightarrow> int \<Rightarrow> bool" where
  "chunk_times_in_range rnd td k =
     list_all (\<lambda>m. chunk_times_ok rnd (take (nat k) (drop (m * nat k) td)))
       (filter (\<lambda>m. m * nat k < length td) [0..<length td])"

text \<open>
  Texts joined by single spaces, said without \<open>join\<close>: the first text, then every
  further text with a space in front.
\<close>

definition spaced :: "string list \<Rightarrow> string" where
  "spaced xs = (case xs of [] \<Rightarrow> [] | x # ys \<Rightarrow> x @ concat (map (\<lambda>y. CHR '' '' # y) ys))"

text \<open>
  An example of a rounding that is not the identity: to quarters below 4 and to whole
  numbers from 4 on.
\<close>

definition coarse_round :: "real \<Rightarrow> real" where
  "coarse_round x = (if x < 4 then of_int \<lfloor>4 * x + 1 / 2\<rfloor> / 4 else of_int \<lfloor>x + 1 / 2\<rfloor>)"

definition group_at :: "caption_entry list \<Rightarrow> int \<Rightarrow> int \<Rightarrow> caption_entry list" where
  "group_at td k j = take (nat k) (drop (nat j) td)"

text \<open>The example transcript of the specification.\<close>

definition example_transcript :: "caption_entry list" where
  "example_transcript =
     [\<lparr>e_text = ''Hello world'', e_start = 0, e_duration = 2\<rparr>,
      \<lparr>e_text = ''this is'', e_start = 2, e_duration = 3 / 2\<rparr>,
      \<lparr>e_text = ''a test'', e_start = 7 / 2, e_duration = 2\<rparr>]"

text \<open>
  The rendering the specification describes: total hours, then minutes and seconds,
  each of the two as two decimal digits.
\<close>

definition hms :: "int \<Rightarrow> string" where
  "hms t =
     (let h = t div 3600; m = (t div 60) mod 60; s = t mod 60
      in str_int h @ [CHR '':'', digit_char (nat (m div 10)), digit_char (nat (m mod 10)),
                      CHR '':'', digit_char (nat (s div 10)), digit_char (nat (s mod 10))])"

text \<open>The day count that \<^verbatim>\<open>str(timedelta)\<close> puts in front from one day on.\<close>

definition day_prefix :: "int \<Rightarrow> string" where
  "day_prefix d = str_int d @ '' day'' @ (if \<bar>d\<bar> \<noteq> 1 then ''s'' else '''') @ '', ''"

text \<open>What a formatted field holds for an integer number of seconds.\<close>

definition expected_format :: "int \<Rightarrow> string" where
  "expected_format s =
     (if 0 \<le> s \<and> s < 86400 then hms s
      else day_prefix (s div 86400) @ hms (s mod 86400))"

text \<open>
  The loop of \<open>upsert_chunks\<close> without the world: its outcome, the records it stores
  and the calls it makes.
\<close>

definition embedding_of :: "services \<Rightarrow> chunk \<Rightarrow> vector" where
  "embedding_of svc c =
     (case embed_content svc ''models/embedding-001'' (c_text c) ''retrieval_document'' of
        Inr v \<Rightarrow> v
      | Inl e \<Rightarrow> [])"

text \<open>
  The exception that the embedding service or the store raises for the chunk at ordinal
  \<open>i\<close>, if any, and the calls that the loop makes for it.
\<close>

definition chunk_failure :: "services \<Rightarrow> string \<Rightarrow> string \<Rightarrow> nat \<Rightarrow> chunk \<Rightarrow> exn option" where
  "chunk_failure svc index_name video_id i c =
     (case embed_content svc ''models/embedding-001'' (c_text c) ''retrieval_document'' of
        Inl e \<Rightarrow> Some e
      | Inr v \<Rightarrow> upsert_fault svc index_name (chunk_record video_id i c v))"

definition chunk_calls :: "services \<Rightarrow> string \<Rightarrow> string \<Rightarrow> nat \<Rightarrow> chunk \<Rightarrow> call list" where
  "chunk_calls svc index_name video_id i c =
     EmbedContent ''models/embedding-001'' (c_text c) ''retrieval_document'' #
     (case embed_content svc ''models/embedding-001'' (c_text c) ''retrieval_document'' of
        Inl e \<Rightarrow> []
      | Inr v \<Rightarrow> [Upsert index_name (chunk_record video_id i c v)])"

fun loop_outcome :: "services \<Rightarrow> string \<Rightarrow> string \<Rightarrow> nat \<Rightarrow> chunk list \<Rightarrow> exn + unit" where
  "loop_outcome svc index_name video_id i [] = Inr ()"
| "loop_outcome svc index_name video_id i (c # cs) =
     (case chunk_failure svc index_name video_id i c of
        Some e \<Rightarrow> Inl e
      | None \<Rightarrow> loop_outcome svc index_name video_id (Suc i) cs)"

fun loop_upserts :: "services \<Rightarrow> string \<Rightarrow> string \<Rightarrow> nat \<Rightarrow> chunk list \<Rightarrow> vector_record list" where
  "loop_upserts svc index_name video_id i [] = []"
| "loop_upserts svc index_name video_id i (c # cs) =
     (case chunk_failure svc index_name video_id i c of
        Some e \<Rightarrow> []
      | None \<Rightarrow> chunk_record video_id i c (embedding_of svc c)
                # loop_upserts svc index_name video_id (Suc i) cs)"

fun loop_calls :: "services \<Rightarrow> string \<Rightarrow> string \<Rightarrow> nat \<Rightarrow> chunk list \<Rightarrow> call list" where
  "loop_calls svc index_name video_id i [] = []"
| "loop_calls svc index_name video_id i (c # cs) =
     chunk_calls svc index_name video_id i c @
     (case chunk_failure svc index_name video_id i c of
        Some e \<Rightarrow> []
      | None \<Rightarrow> loop_calls svc index_name video_id (Suc i) cs)"

text \<open>Example inputs.\<close>

definition env0 :: environ where
  "env0 = \<lparr>PINECONE_API_KEY = Some ''key'', PINECONE_INDEX_NAME = None\<rparr>"

definition env_no_key :: environ where
  "env_no_key = \<lparr>PINECONE_API_KEY = None, PINECONE_INDEX_NAME = None\<rparr>"

definition four_entries :: "caption_entry list" where
  "four_entries =
     [\<lparr>e_text = ''a'', e_start = 0, e_duration = 1\<rparr>,
      \<lparr>e_text = ''b'', e_start = 1, e_duration = 1\<rparr>,
      \<lparr>e_text = ''c'', e_start = 2, e_duration = 1\<rparr>,
      \<lparr>e_text = ''d'', e_start = 3, e_duration = 1\<rparr>]"

definition svc0 :: services where
  "svc0 = \<lparr>embed_content = (\<lambda>m c t. Inr [of_nat (length c), 1]),
           open_index = (\<lambda>k n. None),
           upsert_fault = (\<lambda>n r. None),
           query_fault = (\<lambda>n q k. None),
           metric = (\<lambda>a b. - \<bar>hd a - hd b\<bar>),
           json_loads = (\<lambda>s. if s = ''null'' then Inr JNull else Inr (JEntries four_entries)),
           float_round = (\<lambda>x. x)\<rparr>"

definition svc_fail :: services where
  "svc_fail = svc0\<lparr>embed_content :=
     (\<lambda>m c t. if c = ''d'' then Inl (Exn ''ResourceExhausted'' ''429 quota exceeded'')
               else Inr [of_nat (length c), 1])\<rparr>"

definition w0 :: world where
  "w0 = World (\<lambda>n. []) []"

definition chunk_abc :: chunk where
  "chunk_abc = \<lparr>c_text = ''a b c'', c_start_time = 0, c_end_time = 3,
                 c_start_formatted = ''0:00:00'', c_end_formatted = ''0:00:03''\<rparr>"

definition chunk_d :: chunk where
  "chunk_d = \<lparr>c_text = ''d'', c_start_time = 3, c_end_time = 4,
               c_start_formatted = ''0:00:03'', c_end_formatted = ''0:00:04''\<rparr>"

definition no_captions_api :: transcript_api where
  "no_captions_api = (\<lambda>video_id. Inl (Exn ''TranscriptsDisabled'' ''Subtitles are disabled for this video''))"

text \<open>
  The two intents of the specification, and the task types of the embedding service
  that stand for them.
\<close>

datatype intent = DOCUMENT | QUERY

definition task_type_intent :: "string \<Rightarrow> intent option" where
  "task_type_intent t =
     (if t = ''retrieval_document'' then Some DOCUMENT
      else if t = ''retrieval_query'' then Some QUERY
      else None)"

text \<open>The content and the task type of every embedding call in a list of calls.\<close>

fun embed_requests :: "call list \<Rightarrow> (string \<times> string) list" where
  "embed_requests [] = []"
| "embed_requests (EmbedContent m c t # cs) = (c, t) # embed_requests cs"
| "embed_requests (PineconeIndex k n # cs) = embed_requests cs"
| "embed_requests (Upsert n r # cs) = embed_requests cs"
| "embed_requests (Query n q k b # cs) = embed_requests cs"

text \<open>Example contents of an index.\<close>

definition two_records :: "vector_record list" where
  "two_records =
     [chunk_record ''vid'' 0 chunk_abc [5, 1], chunk_record ''vid'' 1 chunk_d [1, 1]]"

text \<open>The records of the upsert calls in a list of calls.\<close>

fun upsert_requests :: "call list \<Rightarrow> vector_record list" where
  "upsert_requests [] = []"
| "upsert_requests (Upsert n r # cs) = r # upsert_requests cs"
| "upsert_requests (EmbedContent m c t # cs) = upsert_requests cs"
| "upsert_requests (PineconeIndex k n # cs) = upsert_requests cs"
| "upsert_requests (Query n q k b # cs) = upsert_requests cs"

text \<open>The number that a string of decimal digits writes.\<close>

definition digit_val :: "char \<Rightarrow> nat" where
  "digit_val c = length (takeWhile (\<lambda>d. d \<noteq> c) ''0123456789'')"

definition decimal_value :: "string \<Rightarrow> nat" where
  "decimal_value s = foldl (\<lambda>a c. 10 * a + digit_val c) 0 s"

section \<open>Properties of the chunker\<close>

declare py_range.simps [simp del]
declare str_nat.simps [simp del]

lemma join_append:
  "xs \<noteq> [] \<Longrightarrow> ys \<noteq> [] \<Longrightarrow> join sep (xs @ ys) = join sep xs @ sep @ join sep ys"
proof (induction sep xs rule: join.induct)
  case (2 sep x)
  then show ?case by (cases ys) simp_all
qed simp_all

lemma join_concat:
  "\<forall>xs \<in> set xss. xs \<noteq> [] \<Longrightarrow>
     join sep (map (\<lambda>xs. join sep (map f xs)) xss) = join sep (map f (concat xss))"
proof (induction xss rule: induct_list012)
  case (3 x y zs)
  have ne: "map f x \<noteq> []" "map f (concat (y # zs)) \<noteq> []"
    using 3 by auto
  have "join sep (map (\<lambda>xs. join sep (map f xs)) (x # y # zs))
        = join sep (map f x) @ sep @ join sep (map (\<lambda>xs. join sep (map f xs)) (y # zs))"
    by simp
  also have "\<dots> = join sep (map f x) @ sep @ join sep (map f (concat (y # zs)))"
    using 3 by simp
  also have "\<dots> = join sep (map f x @ map f (concat (y # zs)))"
    using join_append [OF ne] by simp
  finally show ?case by simp
qed simp_all

lemma join_spaced: "join '' '' xs = spaced xs"
proof (induction xs rule: induct_list012)
  case (3 x y zs)
  then show ?case by (simp add: spaced_def)
qed (simp_all add: spaced_def)

lemma py_slice_forward:
  assumes "0 \<le> i" "0 < k"
  shows "py_slice xs i (i + k) = take (nat k) (drop (nat i) xs)"
proof -
  have a: "slice_bound (length xs) i = min (nat i) (length xs)"
    using assms by (simp add: slice_bound_def)
  have b: "slice_bound (length xs) (i + k) = min (nat i + nat k) (length xs)"
    using assms by (simp add: slice_bound_def nat_add_distrib)
  show ?thesis
  proof (cases "nat i < length xs")
    case True
    have "min (nat i + nat k) (length xs) - min (nat i) (length xs)
          = min (nat k) (length (drop (nat i) xs))"
      using True by (simp add: min_def) arith
    then show ?thesis
      by (simp add: py_slice_def a b Let_def del: length_drop) (simp add: min_def)
  next
    case False
    then show ?thesis
      by (simp add: py_slice_def a b Let_def)
  qed
qed

lemma py_index_first: "xs \<noteq> [] \<Longrightarrow> py_index xs 0 = Inr (hd xs)"
  by (cases xs) (simp_all add: py_index_def)

lemma py_index_last: "xs \<noteq> [] \<Longrightarrow> py_index xs (- 1) = Inr (last xs)"
proof -
  assume ne: "xs \<noteq> []"
  then have "nat (int (length xs) + - 1) = length xs - 1" by (cases xs) simp_all
  moreover have "1 \<le> int (length xs)" using ne by (cases xs) simp_all
  ultimately show ?thesis
    using ne by (simp add: py_index_def last_conv_nth)
qed

lemma py_index_empty: "py_index [] i = Inl (IndexError ''list index out of range'')"
  by (simp add: py_index_def)

lemma timedelta_str_in_range:
  "in_timedelta_range s \<Longrightarrow> timedelta_str s = Inr (format_seconds s)"
  by (simp add: timedelta_str_def timedelta_def in_timedelta_range_def format_seconds_def Let_def)

lemma timedelta_str_out_of_range:
  "\<not> in_timedelta_range s \<Longrightarrow> \<exists>msg. timedelta_str s = Inl (OverflowError msg)"
  by (simp add: timedelta_str_def timedelta_def in_timedelta_range_def Let_def)

lemma chunk_of_nonempty:
  "g \<noteq> [] \<Longrightarrow> chunk_times_ok rnd g \<Longrightarrow> chunk_of rnd g = Inr (chunk_fields rnd g)"
  by (simp add: chunk_of_def chunk_fields_def chunk_times_ok_def float_add_def py_index_first
      py_index_last timedelta_str_in_range Let_def)

lemma chunk_of_overflow:
  assumes "g \<noteq> []" "\<not> chunk_times_ok rnd g"
  shows "\<exists>msg. chunk_of rnd g = Inl (OverflowError msg)"
proof (cases "in_timedelta_range (py_int (e_start (hd g)))")
  case False
  from timedelta_str_out_of_range [OF this] obtain msg
    where "timedelta_str (py_int (e_start (hd g))) = Inl (OverflowError msg)" ..
  then show ?thesis
    using assms(1) by (simp add: chunk_of_def py_index_first py_index_last Let_def)
next
  case True
  then have "\<not> in_timedelta_range (py_int (rnd (e_start (last g) + e_duration (last g))))"
    using assms(2) by (simp add: chunk_times_ok_def)
  from timedelta_str_out_of_range [OF this] obtain msg
    where "timedelta_str (py_int (rnd (e_start (last g) + e_duration (last g))))
           = Inl (OverflowError msg)" ..
  then show ?thesis
    using assms(1) True
    by (simp add: chunk_of_def py_index_first py_index_last timedelta_str_in_range float_add_def
        Let_def)
qed

lemma group_at_nonempty: "0 < k \<Longrightarrow> 0 \<le> j \<Longrightarrow> j < int (length td) \<Longrightarrow> group_at td k j \<noteq> []"
  by (simp add: group_at_def)

lemma chunks_loop_groups:
  assumes "0 < k"
    and "\<forall>j \<in> set js. 0 \<le> j \<and> j < int (length td) \<and> chunk_times_ok rnd (group_at td k j)"
  shows "chunks_loop rnd td k js acc
         = Inr (acc @ map (\<lambda>j. chunk_fields rnd (group_at td k j)) js)"
  using assms(2)
proof (induction js arbitrary: acc)
  case Nil
  show ?case by simp
next
  case (Cons j js)
  have "py_slice td j (j + k) = group_at td k j"
    using Cons.prems assms(1) by (simp add: py_slice_forward group_at_def)
  moreover have "group_at td k j \<noteq> []"
    using Cons.prems assms(1) by (simp add: group_at_nonempty)
  moreover have "chunk_times_ok rnd (group_at td k j)"
    using Cons.prems by simp
  ultimately show ?case
    using Cons by (simp add: chunk_of_nonempty)
qed

lemma chunks_loop_overflow:
  assumes "0 < k"
    and "\<forall>j \<in> set js. 0 \<le> j \<and> j < int (length td)"
    and "\<exists>j \<in> set js. \<not> chunk_times_ok rnd (group_at td k j)"
  shows "\<exists>msg. chunks_loop rnd td k js acc = Inl (OverflowError msg)"
  using assms(2,3)
proof (induction js arbitrary: acc)
  case Nil
  then show ?case by simp
next
  case (Cons j js)
  have slice: "py_slice td j (j + k) = group_at td k j"
    using Cons.prems(1) assms(1) by (simp add: py_slice_forward group_at_def)
  have ne: "group_at td k j \<noteq> []"
    using Cons.prems(1) assms(1) by (simp add: group_at_nonempty)
  show ?case
  proof (cases "chunk_times_ok rnd (group_at td k j)")
    case True
    then have "\<exists>i \<in> set js. \<not> chunk_times_ok rnd (group_at td k i)"
      using Cons.prems(2) by auto
    moreover have "\<forall>i \<in> set js. 0 \<le> i \<and> i < int (length td)"
      using Cons.prems(1) by simp
    ultimately have "\<exists>msg. chunks_loop rnd td k js (acc @ [chunk_fields rnd (group_at td k j)])
                       = Inl (OverflowError msg)"
      by (rule Cons.IH [rotated])
    then show ?thesis
      by (simp add: slice chunk_of_nonempty [OF ne True])
  next
    case False
    from chunk_of_overflow [OF ne False] obtain msg
      where "chunk_of rnd (group_at td k j) = Inl (OverflowError msg)" ..
    then show ?thesis by (simp add: slice)
  qed
qed

lemma py_range_bounds:
  "0 < k \<Longrightarrow> j \<in> set (py_range i n k) \<Longrightarrow> i \<le> j \<and> j < n"
proof (induction i n k rule: py_range.induct)
  case (1 i stop step)
  show ?case
  proof (cases "i < stop")
    case True
    with 1 show ?thesis by (auto simp: py_range.simps [of i stop step])
  next
    case False
    with 1 show ?thesis by (simp add: py_range.simps [of i stop step])
  qed
qed

lemma py_range_length:
  "0 < k \<Longrightarrow> int (length (py_range i n k)) = (if i < n then (n - i + k - 1) div k else 0)"
proof (induction i n k rule: py_range.induct)
  case (1 i stop step)
  show ?case
  proof (cases "i < stop")
    case False
    with 1 show ?thesis by (simp add: py_range.simps [of i stop step])
  next
    case True
    have unfold: "py_range i stop step = i # py_range (i + step) stop step"
      using True 1 by (simp add: py_range.simps [of i stop step])
    have IH: "int (length (py_range (i + step) stop step))
              = (if i + step < stop then (stop - (i + step) + step - 1) div step else 0)"
      using 1 True by simp
    have e: "stop - i + step - 1 = (stop - i - 1) + step" by simp
    have d0: "(stop - i - 1 + step) div step = (stop - i - 1) div step + 1"
      using 1(2) by simp
    have d: "(stop - i + step - 1) div step = (stop - i - 1) div step + 1"
      unfolding e by (rule d0)
    show ?thesis
    proof (cases "i + step < stop")
      case True
      have "stop - (i + step) + step - 1 = stop - i - 1" by simp
      with IH True \<open>i < stop\<close> unfold d show ?thesis by simp
    next
      case False
      have "(stop - i - 1) div step = 0"
        using \<open>i < stop\<close> False by (simp add: div_pos_pos_trivial)
      with IH False \<open>i < stop\<close> unfold d show ?thesis by simp
    qed
  qed
qed

lemma py_range_nth:
  "0 < k \<Longrightarrow> m < length (py_range i n k) \<Longrightarrow> py_range i n k ! m = i + int m * k"
proof (induction i n k arbitrary: m rule: py_range.induct)
  case (1 i stop step)
  show ?case
  proof (cases "i < stop")
    case False
    with 1 show ?thesis by (simp add: py_range.simps [of i stop step])
  next
    case True
    have unfold: "py_range i stop step = i # py_range (i + step) stop step"
      using True 1 by (simp add: py_range.simps [of i stop step])
    show ?thesis
    proof (cases m)
      case 0
      then show ?thesis using unfold by simp
    next
      case (Suc m')
      then have "m' < length (py_range (i + step) stop step)"
        using 1(3) unfold by simp
      then have "py_range (i + step) stop step ! m' = i + step + int m' * step"
        using 1(1) [of m'] True 1(2) by simp
      then show ?thesis using unfold Suc by (simp add: algebra_simps)
    qed
  qed
qed

lemma concat_groups:
  "0 < k \<Longrightarrow> 0 \<le> i \<Longrightarrow>
     concat (map (group_at td k) (py_range i (int (length td)) k)) = drop (nat i) td"
proof (induction i "int (length td)" k rule: py_range.induct)
  case (1 i step)
  show ?case
  proof (cases "i < int (length td)")
    case False
    with 1 show ?thesis by (simp add: py_range.simps [of i "int (length td)" step])
  next
    case True
    have unfold: "py_range i (int (length td)) step = i # py_range (i + step) (int (length td)) step"
      using True 1 by (simp add: py_range.simps [of i "int (length td)" step])
    have "concat (map (group_at td step) (py_range (i + step) (int (length td)) step))
          = drop (nat (i + step)) td"
      using 1 True by simp
    moreover have "take (nat step) (drop (nat i) td) @ drop (nat (i + step)) td = drop (nat i) td"
    proof -
      have "drop (nat (i + step)) td = drop (nat step) (drop (nat i) td)"
        using 1(2,3) by (simp add: nat_add_distrib add.commute)
      then show ?thesis by (simp only: append_take_drop_id)
    qed
    ultimately show ?thesis using unfold by (simp add: group_at_def)
  qed
qed

lemma group_at_mult:
  "0 < k \<Longrightarrow> group_at td k (int m * k) = take (nat k) (drop (m * nat k) td)"
  by (simp add: group_at_def nat_mult_distrib)

lemma py_range_multiples:
  assumes "0 < k" "j \<in> set (py_range 0 n k)"
  shows "\<exists>m. j = int m * k \<and> m < length (py_range 0 n k)"
proof -
  from assms(2) obtain m where m: "m < length (py_range 0 n k)" "py_range 0 n k ! m = j"
    by (auto simp: in_set_conv_nth)
  then have "j = int m * k" using py_range_nth [OF assms(1) m(1)] by simp
  with m(1) show ?thesis by blast
qed

lemma less_length_of_mult:
  assumes "0 < k" "int m * k < int (length td)"
  shows "m * nat k < length td" and "m < length td"
proof -
  have "int (nat k) = k" using assms(1) by simp
  then have "int (m * nat k) = int m * k" by (simp only: of_nat_mult)
  with assms(2) have "int (m * nat k) < int (length td)" by (simp only:)
  then show a: "m * nat k < length td" by (simp only: of_nat_less_iff)
  have "1 \<le> nat k" using assms(1) by simp
  then have "m * 1 \<le> m * nat k" by (rule mult_le_mono2)
  then have "m \<le> m * nat k" by (simp only: mult_1_right)
  then show "m < length td" using a by (rule le_less_trans)
qed

lemma chunk_times_in_range_groups:
  assumes "0 < k"
  shows "chunk_times_in_range rnd td k
         \<longleftrightarrow> (\<forall>j \<in> set (py_range 0 (int (length td)) k). chunk_times_ok rnd (group_at td k j))"
proof
  assume ok: "chunk_times_in_range rnd td k"
  show "\<forall>j \<in> set (py_range 0 (int (length td)) k). chunk_times_ok rnd (group_at td k j)"
  proof
    fix j assume j: "j \<in> set (py_range 0 (int (length td)) k)"
    from py_range_multiples [OF assms j] obtain m where m: "j = int m * k" by blast
    have "int m * k < int (length td)"
      using py_range_bounds [OF assms j] m by simp
    from less_length_of_mult [OF assms this]
    have "m * nat k < length td" "m < length td" .
    then have "chunk_times_ok rnd (take (nat k) (drop (m * nat k) td))"
      using ok by (simp add: chunk_times_in_range_def list_all_iff)
    then show "chunk_times_ok rnd (group_at td k j)"
      unfolding m group_at_mult [OF assms] .
  qed
next
  assume all: "\<forall>j \<in> set (py_range 0 (int (length td)) k). chunk_times_ok rnd (group_at td k j)"
  have "chunk_times_ok rnd (take (nat k) (drop (m * nat k) td))" if m: "m * nat k < length td" for m
  proof -
    let ?js = "py_range 0 (int (length td)) k"
    have "int (nat k) = k" using assms by simp
    then have e: "int (m * nat k) = int m * k" by (simp only: of_nat_mult)
    have "int (m * nat k) < int (length td)"
      using m by (simp only: of_nat_less_iff)
    then have lt: "int m * k < int (length td)" by (simp only: e)
    have "0 \<le> int m * k" using assms by simp
    with lt have pos: "0 < int (length td)" by linarith
    have "int (length ?js) = (int (length td) + k - 1) div k"
      using py_range_length [OF assms, of 0 "int (length td)"] pos by simp
    moreover have "int m < (int (length td) + k - 1) div k"
    proof -
      have "int m * k + k \<le> int (length td) + k - 1" using lt by simp
      then have "(int m + 1) * k \<le> int (length td) + k - 1" by (simp add: algebra_simps)
      then have "((int m + 1) * k) div k \<le> (int (length td) + k - 1) div k"
        by (rule zdiv_mono1) (rule assms)
      then show ?thesis using assms by simp
    qed
    ultimately have ml: "m < length ?js" by simp
    then have "?js ! m \<in> set ?js" by (rule nth_mem)
    then have "int m * k \<in> set ?js" using py_range_nth [OF assms ml] by simp
    with all have "chunk_times_ok rnd (group_at td k (int m * k))" by blast
    then show ?thesis unfolding group_at_mult [OF assms] .
  qed
  then show "chunk_times_in_range rnd td k"
    by (simp add: chunk_times_in_range_def list_all_iff)
qed

lemma create_chunks_groups:
  assumes "0 < k" "chunk_times_in_range rnd td k"
  shows "create_chunks rnd td k
         = Inr (map (\<lambda>j. chunk_fields rnd (group_at td k j)) (py_range 0 (int (length td)) k))"
proof -
  have "\<forall>j \<in> set (py_range 0 (int (length td)) k).
          0 \<le> j \<and> j < int (length td) \<and> chunk_times_ok rnd (group_at td k j)"
    using py_range_bounds [OF assms(1)] assms(2)
    unfolding chunk_times_in_range_groups [OF assms(1)] by blast
  from chunks_loop_groups [OF assms(1) this, of "[]"] show ?thesis
    using assms(1) by (simp add: create_chunks_def range3_def)
qed

lemma create_chunks_overflow:
  assumes "0 < k" "\<not> chunk_times_in_range rnd td k"
  shows "\<exists>msg. create_chunks rnd td k = Inl (OverflowError msg)"
proof -
  have v: "\<forall>j \<in> set (py_range 0 (int (length td)) k). 0 \<le> j \<and> j < int (length td)"
    using py_range_bounds [OF assms(1)] by blast
  have "\<exists>j \<in> set (py_range 0 (int (length td)) k). \<not> chunk_times_ok rnd (group_at td k j)"
    using assms(2) unfolding chunk_times_in_range_groups [OF assms(1)] by blast
  from chunks_loop_overflow [OF assms(1) v this, of "[]"] show ?thesis
    using assms(1) by (simp add: create_chunks_def range3_def)
qed

lemma create_chunks_returns:
  assumes "0 < k" "create_chunks rnd td k = Inr cs"
  shows "chunk_times_in_range rnd td k"
    and "cs = map (\<lambda>j. chunk_fields rnd (group_at td k j)) (py_range 0 (int (length td)) k)"
proof -
  show r: "chunk_times_in_range rnd td k"
  proof (rule ccontr)
    assume "\<not> chunk_times_in_range rnd td k"
    from create_chunks_overflow [OF assms(1) this] assms(2) show False by auto
  qed
  show "cs = map (\<lambda>j. chunk_fields rnd (group_at td k j)) (py_range 0 (int (length td)) k)"
    using create_chunks_groups [OF assms(1) r] assms(2) by simp
qed

lemma ceiling_div_int:
  assumes "0 < (k::int)"
  shows "\<lceil>(of_int n :: real) / of_int k\<rceil> = (n + k - 1) div k"
proof -
  have "\<lceil>(of_int n :: real) / of_int k\<rceil> = - (- n div k)"
    by (rule ceiling_divide_eq_div)
  also have "\<dots> = (n + k - 1) div k"
  proof (cases "n mod k = 0")
    case True
    then obtain q where q: "n = k * q" by auto
    have "(k * q + (k - 1)) div k = q"
      using assms by (simp add: div_pos_pos_trivial)
    moreover have "- (- (k * q) div k) = q"
      using assms by (metis less_irrefl minus_minus mult_minus_right nonzero_mult_div_cancel_left)
    ultimately show ?thesis unfolding q by (simp add: algebra_simps)
  next
    case False
    have m: "0 < n mod k" "n mod k < k"
      using assms False pos_mod_sign [of k n] pos_mod_bound [of k n] by linarith+
    have "- n div k = - (n div k) - 1"
      using assms False by (simp add: zdiv_zminus1_eq_if)
    moreover have "(n + k - 1) div k = n div k + 1"
    proof -
      have "n + k - 1 = k * (n div k + 1) + (n mod k - 1)"
        by (simp add: algebra_simps)
      moreover have "(k * (n div k + 1) + (n mod k - 1)) div k = n div k + 1"
      proof -
        have "(n mod k - 1) div k = 0"
          using m by (simp add: div_pos_pos_trivial)
        then show ?thesis using assms by simp
      qed
      ultimately show ?thesis by (simp only:)
    qed
    ultimately show ?thesis by simp
  qed
  finally show ?thesis .
qed

lemmas eval_chunks =
  create_chunks_def range3_def py_range.simps chunk_of_def py_slice_def slice_bound_def
  py_index_def py_int_def float_add_def timedelta_str_def timedelta_def str_timedelta_def
  pad2_def str_int_def str_nat.simps digit_char_def Let_def

lemma example_in_range: "chunk_times_in_range (\<lambda>x. x) example_transcript 2"
  by (simp add: chunk_times_in_range_def chunk_times_ok_def in_timedelta_range_def py_int_def
      example_transcript_def upt_rec_numeral)

text \<open>
  Claim C1, as amended. For a transcript of \<open>N\<close> entries and a chunk size \<open>k \<ge> 1\<close>: when
  the times of every chunk are within the range of \<^verbatim>\<open>timedelta\<close>, \<open>create_chunks\<close>
  returns \<open>\<lceil>N / k\<rceil>\<close> chunks, joining the chunk texts in order with single spaces gives
  the space-joined entry texts, and an empty transcript gives no chunk; otherwise it
  raises OverflowError.
\<close>

theorem create_chunks_count_and_text:
  assumes "1 \<le> k"
  shows "(chunk_times_in_range rnd td k \<longrightarrow>
            (\<exists>cs. create_chunks rnd td k = Inr cs
               \<and> int (length cs) = \<lceil>(of_nat (length td) :: real) / of_int k\<rceil>
               \<and> join '' '' (map c_text cs) = join '' '' (map e_text td)
               \<and> (td = [] \<longrightarrow> cs = [])))
         \<and> (\<not> chunk_times_in_range rnd td k \<longrightarrow>
              (\<exists>msg. create_chunks rnd td k = Inl (OverflowError msg)))"
proof -
  let ?n = "int (length td)"
  let ?js = "py_range 0 ?n k"
  let ?cs = "map (\<lambda>j. chunk_fields rnd (group_at td k j)) ?js"
  have k: "0 < k" using assms by simp
  have good: "\<exists>cs. create_chunks rnd td k = Inr cs
               \<and> int (length cs) = \<lceil>(of_nat (length td) :: real) / of_int k\<rceil>
               \<and> join '' '' (map c_text cs) = join '' '' (map e_text td)
               \<and> (td = [] \<longrightarrow> cs = [])"
    if ok: "chunk_times_in_range rnd td k"
  proof -
    have run: "create_chunks rnd td k = Inr ?cs"
      by (rule create_chunks_groups [OF k ok])
    have "int (length ?cs) = (if 0 < ?n then (?n + k - 1) div k else 0)"
      using py_range_length [OF k, of 0 ?n] by simp
    also have "\<dots> = (?n + k - 1) div k"
      using k by (simp add: div_pos_pos_trivial)
    also have "\<dots> = \<lceil>(of_int ?n :: real) / of_int k\<rceil>"
      by (rule ceiling_div_int [OF k, symmetric])
    finally have count: "int (length ?cs) = \<lceil>(of_nat (length td) :: real) / of_int k\<rceil>"
      by simp
    have ne: "\<forall>g \<in> set (map (group_at td k) ?js). g \<noteq> []"
      using py_range_bounds [OF k, of _ 0 ?n] group_at_nonempty [OF k] by auto
    have t1: "map c_text ?cs = map (\<lambda>g. join '' '' (map e_text g)) (map (group_at td k) ?js)"
      by (simp add: chunk_fields_def comp_def)
    have t2: "join '' '' (map (\<lambda>g. join '' '' (map e_text g)) (map (group_at td k) ?js))
              = join '' '' (map e_text (concat (map (group_at td k) ?js)))"
      by (rule join_concat [OF ne])
    have "join '' '' (map c_text ?cs) = join '' '' (map e_text (concat (map (group_at td k) ?js)))"
      by (simp only: t1 t2)
    also have "\<dots> = join '' '' (map e_text td)"
      using concat_groups [OF k, of 0 td] by simp
    finally have texts: "join '' '' (map c_text ?cs) = join '' '' (map e_text td)" .
    have "td = [] \<longrightarrow> ?cs = []"
      by (simp add: py_range.simps [of 0 0 k])
    with run count texts show ?thesis by blast
  qed
  have bad: "\<exists>msg. create_chunks rnd td k = Inl (OverflowError msg)"
    if "\<not> chunk_times_in_range rnd td k"
    using that by (rule create_chunks_overflow [OF k])
  from good bad show ?thesis by blast
qed

theorem create_chunks_count_and_text_witness:
  "\<exists>cs. create_chunks (\<lambda>x. x) example_transcript 2 = Inr cs
      \<and> length cs = 2
      \<and> join '' '' (map c_text cs) = ''Hello world this is a test''"
proof -
  have "(1::int) \<le> 2" by simp
  from create_chunks_count_and_text [OF this, of "\<lambda>x. x" example_transcript] example_in_range
  obtain cs where cs: "create_chunks (\<lambda>x. x) example_transcript 2 = Inr cs"
    "int (length cs) = \<lceil>(of_nat (length example_transcript) :: real) / of_int 2\<rceil>"
    "join '' '' (map c_text cs) = join '' '' (map e_text example_transcript)"
    by blast
  have "\<lceil>(of_nat (length example_transcript) :: real) / of_int 2\<rceil> = 2"
    by (simp add: example_transcript_def)
  with cs(2) have "length cs = 2" by simp
  moreover have "join '' '' (map e_text example_transcript) = ''Hello world this is a test''"
    by (simp add: example_transcript_def)
  ultimately show ?thesis using cs by auto
qed

text \<open>
  Claim C1 as stated fails for a transcript with a time beyond the range of
  \<^verbatim>\<open>timedelta\<close>: at 86400000000000 seconds the day count is 1000000000 and
  \<open>create_chunks\<close> raises OverflowError instead of returning a chunk.
\<close>

theorem create_chunks_count_and_text_counterexample:
  "create_chunks (\<lambda>x. x) [\<lparr>e_text = ''x'', e_start = 86400000000000, e_duration = 1\<rparr>] 1
   = Inl (OverflowError ''days=1000000000; must have magnitude <= 999999999'')"
  by (simp add: eval_chunks)

lemma sorted_hd_le_last:
  fixes xs :: "real list"
  shows "sorted xs \<Longrightarrow> xs \<noteq> [] \<Longrightarrow> hd xs \<le> last xs"
  by (cases xs) auto

lemma create_chunks_nth:
  assumes "0 < k" "create_chunks rnd td k = Inr cs" "m < length cs"
  shows "cs ! m = chunk_fields rnd (group_at td k (int m * k))"
    and "int m * k < int (length td)"
proof -
  let ?js = "py_range 0 (int (length td)) k"
  have cs: "cs = map (\<lambda>j. chunk_fields rnd (group_at td k j)) ?js"
    by (rule create_chunks_returns(2) [OF assms(1,2)])
  then have m: "m < length ?js" using assms(3) by simp
  have j: "?js ! m = int m * k"
    using py_range_nth [OF assms(1) m] by simp
  show "cs ! m = chunk_fields rnd (group_at td k (int m * k))"
    using cs m j by simp
  have "?js ! m \<in> set ?js" using m by (rule nth_mem)
  then show "int m * k < int (length td)"
    using py_range_bounds [OF assms(1), of "?js ! m" 0 "int (length td)"] j by simp
qed

lemma mono_coarse_round: "mono coarse_round"
proof (rule monoI)
  fix x y :: real
  assume le: "x \<le> y"
  show "coarse_round x \<le> coarse_round y"
  proof (cases "y < 4")
    case True
    then have "x < 4" using le by simp
    have "\<lfloor>4 * x + 1 / 2\<rfloor> \<le> \<lfloor>4 * y + 1 / 2\<rfloor>"
      using le by (intro floor_mono) simp
    then show ?thesis
      using True \<open>x < 4\<close> by (simp add: coarse_round_def divide_right_mono)
  next
    case False
    show ?thesis
    proof (cases "x < 4")
      case True
      have "4 * x + 1 / 2 < 17" using True by simp
      then have "\<lfloor>4 * x + 1 / 2\<rfloor> < 17" by (simp add: floor_less_iff)
      then have "\<lfloor>4 * x + 1 / 2\<rfloor> \<le> 16" by simp
      then have a: "(of_int \<lfloor>4 * x + 1 / 2\<rfloor> :: real) / 4 \<le> 4" by simp
      have "(4::real) \<le> y + 1 / 2" using False by simp
      then have "4 \<le> \<lfloor>y + 1 / 2\<rfloor>" by (simp add: le_floor_iff)
      then have b: "(4::real) \<le> of_int \<lfloor>y + 1 / 2\<rfloor>" by simp
      have cx: "coarse_round x = of_int \<lfloor>4 * x + 1 / 2\<rfloor> / 4"
        using True by (simp add: coarse_round_def)
      have cy: "coarse_round y = of_int \<lfloor>y + 1 / 2\<rfloor>"
        using False by (simp add: coarse_round_def)
      from a b show ?thesis unfolding cx cy by (rule order_trans)
    next
      case xf: False
      have "\<lfloor>x + 1 / 2\<rfloor> \<le> \<lfloor>y + 1 / 2\<rfloor>"
        using le by (intro floor_mono) simp
      then show ?thesis
        using xf False by (simp add: coarse_round_def)
    qed
  qed
qed

lemma rounded_sum_ge:
  fixes rnd :: "real \<Rightarrow> real" and a b :: real
  assumes "mono rnd" "rnd a = a" "0 \<le> b"
  shows "a \<le> rnd (a + b)"
proof -
  have "a \<le> a + b" using assms(3) by simp
  with assms(1) have "rnd a \<le> rnd (a + b)" by (rule monoD)
  then show ?thesis by (simp only: assms(2))
qed

text \<open>
  Claim C6. For entries in chronological order with non-negative durations, float
  addition being the exact sum rounded by a monotone rounding that leaves the entries'
  starts (floats) as they are: every chunk that \<open>create_chunks\<close> returns is built from
  its group of consecutive entries. Its text is the group's first text followed by every
  further text with one space in front; its start time is the first entry's start; its
  end time is the float sum of the last entry's start and duration; and the end time is
  not before the start time. (Non-negative starts are not needed.) Chunks are returned
  whenever all chunk times are within the range of \<^verbatim>\<open>timedelta\<close>.
\<close>

theorem create_chunks_chunk_fields:
  assumes "1 \<le> k" "sorted (map e_start td)"
    and "\<forall>e \<in> set td. 0 \<le> e_duration e \<and> rnd (e_start e) = e_start e"
    and "mono rnd"
  shows "(\<forall>cs. create_chunks rnd td k = Inr cs \<longrightarrow>
            (\<forall>m < length cs.
               let g = take (nat k) (drop (m * nat k) td)
               in g \<noteq> []
                  \<and> c_text (cs ! m) = spaced (map e_text g)
                  \<and> c_start_time (cs ! m) = e_start (hd g)
                  \<and> c_end_time (cs ! m) = float_add rnd (e_start (last g)) (e_duration (last g))
                  \<and> c_start_time (cs ! m) \<le> c_end_time (cs ! m)))
         \<and> (chunk_times_in_range rnd td k \<longrightarrow> (\<exists>cs. create_chunks rnd td k = Inr cs))"
proof -
  have k: "0 < k" using assms(1) by simp
  have "let g = take (nat k) (drop (m * nat k) td)
        in g \<noteq> []
           \<and> c_text (cs ! m) = spaced (map e_text g)
           \<and> c_start_time (cs ! m) = e_start (hd g)
           \<and> c_end_time (cs ! m) = float_add rnd (e_start (last g)) (e_duration (last g))
           \<and> c_start_time (cs ! m) \<le> c_end_time (cs ! m)"
    if run: "create_chunks rnd td k = Inr cs" and m: "m < length cs" for cs m
  proof -
    let ?g = "take (nat k) (drop (m * nat k) td)"
    have nth: "cs ! m = chunk_fields rnd ?g"
      using create_chunks_nth(1) [OF k run m] group_at_mult [OF k, of td m] by simp
    have "int m * k < int (length td)"
      by (rule create_chunks_nth(2) [OF k run m])
    then have "m * nat k < length td" by (rule less_length_of_mult(1) [OF k])
    then have ne: "?g \<noteq> []" using k by simp
    have "sorted (map e_start ?g)"
      using assms(2) by (simp add: take_map [symmetric] drop_map [symmetric] sorted_wrt_take sorted_wrt_drop)
    then have "hd (map e_start ?g) \<le> last (map e_start ?g)"
      using ne by (intro sorted_hd_le_last) simp_all
    then have le: "e_start (hd ?g) \<le> e_start (last ?g)"
      using ne by (simp add: hd_map last_map)
    have in_td: "x \<in> set td" if "x \<in> set ?g" for x
    proof -
      from that have "x \<in> set (drop (m * nat k) td)" by (rule in_set_takeD)
      then show ?thesis by (rule in_set_dropD)
    qed
    have "last ?g \<in> set td" using ne by (intro in_td last_in_set)
    then have d: "0 \<le> e_duration (last ?g)" "rnd (e_start (last ?g)) = e_start (last ?g)"
      using assms(3) by blast+
    have "e_start (last ?g) \<le> rnd (e_start (last ?g) + e_duration (last ?g))"
      by (rule rounded_sum_ge [OF assms(4) d(2) d(1)])
    with le have "e_start (hd ?g) \<le> rnd (e_start (last ?g) + e_duration (last ?g))"
      by (rule order_trans)
    with ne nth show ?thesis
      by (simp add: chunk_fields_def float_add_def join_spaced Let_def)
  qed
  moreover have "\<exists>cs. create_chunks rnd td k = Inr cs" if "chunk_times_in_range rnd td k"
    using create_chunks_groups [OF k that] by blast
  ultimately show ?thesis by blast
qed

lemma example_in_range_coarse: "chunk_times_in_range coarse_round example_transcript 2"
  by (simp add: chunk_times_in_range_def chunk_times_ok_def in_timedelta_range_def py_int_def
      example_transcript_def upt_rec_numeral coarse_round_def)

theorem create_chunks_chunk_fields_witness:
  "\<exists>cs. create_chunks coarse_round example_transcript 2 = Inr cs
      \<and> length cs = 2
      \<and> c_text (cs ! 0) = ''Hello world this is''
      \<and> c_start_time (cs ! 0) = 0
      \<and> c_end_time (cs ! 0) = 7 / 2
      \<and> c_text (cs ! 1) = ''a test''
      \<and> c_start_time (cs ! 1) = 7 / 2
      \<and> c_end_time (cs ! 1) = 6
      \<and> c_start_time (cs ! 1) \<le> c_end_time (cs ! 1)"
proof -
  have h1: "(1::int) \<le> 2" by simp
  have h2: "sorted (map e_start example_transcript)"
    by (simp add: example_transcript_def)
  have h3: "\<forall>e \<in> set example_transcript.
              0 \<le> e_duration e \<and> coarse_round (e_start e) = e_start e"
    by (simp add: example_transcript_def coarse_round_def)
  note inst = create_chunks_chunk_fields [OF h1 h2 h3 mono_coarse_round]
  from inst example_in_range_coarse
  obtain cs where cs: "create_chunks coarse_round example_transcript 2 = Inr cs"
    by blast
  from inst cs have all: "\<forall>m < length cs.
              let g = take (nat 2) (drop (m * nat 2) example_transcript)
              in g \<noteq> []
                 \<and> c_text (cs ! m) = spaced (map e_text g)
                 \<and> c_start_time (cs ! m) = e_start (hd g)
                 \<and> c_end_time (cs ! m)
                     = float_add coarse_round (e_start (last g)) (e_duration (last g))
                 \<and> c_start_time (cs ! m) \<le> c_end_time (cs ! m)"
    by blast
  have "cs = map (\<lambda>j. chunk_fields coarse_round (group_at example_transcript 2 j))
               (py_range 0 (int (length example_transcript)) 2)"
    using cs by (intro create_chunks_returns(2)) simp_all
  then have len: "length cs = 2"
    by (simp add: example_transcript_def py_range.simps)
  then have "0 < length cs" "1 < length cs" by simp_all
  with all have
    "let g = take (nat 2) (drop (0 * nat 2) example_transcript)
     in g \<noteq> []
        \<and> c_text (cs ! 0) = spaced (map e_text g)
        \<and> c_start_time (cs ! 0) = e_start (hd g)
        \<and> c_end_time (cs ! 0) = float_add coarse_round (e_start (last g)) (e_duration (last g))
        \<and> c_start_time (cs ! 0) \<le> c_end_time (cs ! 0)"
    "let g = take (nat 2) (drop (1 * nat 2) example_transcript)
     in g \<noteq> []
        \<and> c_text (cs ! 1) = spaced (map e_text g)
        \<and> c_start_time (cs ! 1) = e_start (hd g)
        \<and> c_end_time (cs ! 1) = float_add coarse_round (e_start (last g)) (e_duration (last g))
        \<and> c_start_time (cs ! 1) \<le> c_end_time (cs ! 1)"
    by blast+
  then have "c_text (cs ! 0) = ''Hello world this is'' \<and> c_start_time (cs ! 0) = 0
      \<and> c_end_time (cs ! 0) = 7 / 2
      \<and> c_text (cs ! 1) = ''a test'' \<and> c_start_time (cs ! 1) = 7 / 2
      \<and> c_end_time (cs ! 1) = 6 \<and> c_start_time (cs ! 1) \<le> c_end_time (cs ! 1)"
    by (simp add: example_transcript_def Let_def spaced_def float_add_def coarse_round_def)
  with cs len have "create_chunks coarse_round example_transcript 2 = Inr cs
      \<and> length cs = 2
      \<and> c_text (cs ! 0) = ''Hello world this is''
      \<and> c_start_time (cs ! 0) = 0
      \<and> c_end_time (cs ! 0) = 7 / 2
      \<and> c_text (cs ! 1) = ''a test''
      \<and> c_start_time (cs ! 1) = 7 / 2
      \<and> c_end_time (cs ! 1) = 6
      \<and> c_start_time (cs ! 1) \<le> c_end_time (cs ! 1)"
    by (simp only: simp_thms)
  then show ?thesis by - (rule exI [of _ cs], assumption)
qed

lemma str_nat_digit: "n < 10 \<Longrightarrow> str_nat n = [digit_char n]"
  by (simp add: str_nat.simps [of n])

lemma pad2_digits:
  assumes "0 \<le> i" "i < 100"
  shows "pad2 i = [digit_char (nat (i div 10)), digit_char (nat (i mod 10))]"
proof (cases "i < 10")
  case True
  then have "str_int i = [digit_char (nat i)]"
    using assms by (simp add: str_int_def str_nat_digit)
  moreover have "digit_char (nat (i div 10)) = CHR ''0''"
    using True assms by (simp add: div_pos_pos_trivial digit_char_def)
  ultimately show ?thesis
    using True assms by (simp add: pad2_def Let_def)
next
  case False
  have n: "\<not> nat i < 10" "nat i div 10 < 10" using False assms by simp_all
  have d: "nat i div 10 = nat (i div 10)" "nat i mod 10 = nat (i mod 10)"
    using assms by (simp_all add: nat_div_distrib nat_mod_distrib)
  have "str_nat (nat i) = str_nat (nat i div 10) @ [digit_char (nat i mod 10)]"
    using n(1) by (simp add: str_nat.simps [of "nat i"])
  then have "str_int i = [digit_char (nat (i div 10)), digit_char (nat (i mod 10))]"
    using assms n(2) d by (simp add: str_int_def str_nat_digit)
  then show ?thesis by (simp add: pad2_def Let_def)
qed

lemma format_seconds_split:
  "format_seconds t
   = (if t div 86400 \<noteq> 0 then day_prefix (t div 86400) else []) @ hms (t mod 86400)"
proof -
  let ?secs = "t mod 86400"
  have hh: "?secs div 60 div 60 = ?secs div 3600"
    by (simp add: zdiv_zmult2_eq [symmetric])
  have mm: "0 \<le> ?secs div 60 mod 60" "?secs div 60 mod 60 < 100"
  proof -
    show "0 \<le> ?secs div 60 mod 60" by simp
    have "?secs div 60 mod 60 < 60" by simp
    then show "?secs div 60 mod 60 < 100" by linarith
  qed
  have ss: "0 \<le> ?secs mod 60" "?secs mod 60 < 100"
  proof -
    show "0 \<le> ?secs mod 60" by simp
    have "?secs mod 60 < 60" by simp
    then show "?secs mod 60 < 100" by linarith
  qed
  have body: "str_int (?secs div 60 div 60) @ '':'' @ pad2 (?secs div 60 mod 60) @ '':'' @ pad2 (?secs mod 60)
        = hms ?secs"
    unfolding hh pad2_digits [OF mm] pad2_digits [OF ss]
    by (simp add: hms_def Let_def)
  show ?thesis
    unfolding format_seconds_def str_timedelta_def Let_def fst_conv snd_conv body
    by (simp add: day_prefix_def)
qed

lemma format_seconds_expected: "format_seconds t = expected_format t"
proof (cases "0 \<le> t \<and> t < 86400")
  case True
  then have "t div 86400 = 0" "t mod 86400 = t" by (simp_all add: div_pos_pos_trivial)
  then show ?thesis using True by (simp add: format_seconds_split expected_format_def)
next
  case False
  have nz: "t div 86400 \<noteq> 0"
  proof
    assume z: "t div 86400 = 0"
    have "86400 * (t div 86400) + t mod 86400 = t" by (rule mult_div_mod_eq)
    then have "t mod 86400 = t" unfolding z by simp
    with pos_mod_sign [of 86400 t] pos_mod_bound [of 86400 t]
    have "0 \<le> t \<and> t < 86400" by simp
    with False show False by (rule notE)
  qed
  have "expected_format t = day_prefix (t div 86400) @ hms (t mod 86400)"
    unfolding expected_format_def using False by (rule if_not_P)
  moreover have "(if t div 86400 \<noteq> 0 then day_prefix (t div 86400) else [])
                 = day_prefix (t div 86400)"
    using nz by (rule if_P)
  ultimately show ?thesis by (simp only: format_seconds_split)
qed

lemma chunk_times_ok_groups:
  assumes "0 < k" "chunk_times_in_range rnd td k" "j \<in> set (py_range 0 (int (length td)) k)"
  shows "chunk_times_ok rnd (group_at td k j)"
  using assms(2,3) unfolding chunk_times_in_range_groups [OF assms(1)] by blast

text \<open>
  Claim C7, as amended. Both formatted fields of every chunk that \<open>create_chunks\<close>
  returns render the truncated time, which is within the range of \<^verbatim>\<open>timedelta\<close>: as
  \<open>H:MM:SS\<close> with two-digit minutes and seconds while it is in \<open>[0, 86400)\<close>, and with
  the day count in front and the hours counted within the day otherwise. 125 gives
  \<open>0:02:05\<close> and 3725 gives \<open>1:02:05\<close>. Chunks are returned whenever all chunk times are
  within the range.
\<close>

theorem create_chunks_formatted:
  assumes "1 \<le> k"
  shows "(\<forall>cs. create_chunks rnd td k = Inr cs \<longrightarrow>
            (\<forall>c \<in> set cs.
               in_timedelta_range (py_int (c_start_time c))
               \<and> in_timedelta_range (py_int (c_end_time c))
               \<and> c_start_formatted c = expected_format (py_int (c_start_time c))
               \<and> c_end_formatted c = expected_format (py_int (c_end_time c))))
         \<and> (chunk_times_in_range rnd td k \<longrightarrow> (\<exists>cs. create_chunks rnd td k = Inr cs))
         \<and> expected_format 125 = ''0:02:05''
         \<and> expected_format 3725 = ''1:02:05''"
proof -
  have k: "0 < k" using assms by simp
  let ?js = "py_range 0 (int (length td)) k"
  have fields: "\<forall>c \<in> set cs.
      in_timedelta_range (py_int (c_start_time c))
      \<and> in_timedelta_range (py_int (c_end_time c))
      \<and> c_start_formatted c = expected_format (py_int (c_start_time c))
      \<and> c_end_formatted c = expected_format (py_int (c_end_time c))"
    if run: "create_chunks rnd td k = Inr cs" for cs
  proof
    fix c assume c: "c \<in> set cs"
    note ok = create_chunks_returns(1) [OF k run]
    from c obtain j where j: "j \<in> set ?js" "c = chunk_fields rnd (group_at td k j)"
      unfolding create_chunks_returns(2) [OF k run] by auto
    have "chunk_times_ok rnd (group_at td k j)"
      by (rule chunk_times_ok_groups [OF k ok j(1)])
    then show "in_timedelta_range (py_int (c_start_time c))
      \<and> in_timedelta_range (py_int (c_end_time c))
      \<and> c_start_formatted c = expected_format (py_int (c_start_time c))
      \<and> c_end_formatted c = expected_format (py_int (c_end_time c))"
      unfolding j(2) by (simp add: chunk_fields_def chunk_times_ok_def format_seconds_expected)
  qed
  have returns: "\<exists>cs. create_chunks rnd td k = Inr cs" if "chunk_times_in_range rnd td k"
    using create_chunks_groups [OF k that] by blast
  have e1: "expected_format 125 = ''0:02:05''"
    by (simp add: expected_format_def hms_def str_int_def str_nat.simps digit_char_def Let_def)
  have e2: "expected_format 3725 = ''1:02:05''"
    by (simp add: expected_format_def hms_def str_int_def str_nat.simps digit_char_def Let_def)
  from fields returns e1 e2 show ?thesis by blast
qed

lemma example_in_range3: "chunk_times_in_range (\<lambda>x. x) example_transcript 3"
  by (simp add: chunk_times_in_range_def chunk_times_ok_def in_timedelta_range_def py_int_def
      example_transcript_def upt_rec_numeral)

theorem create_chunks_formatted_witness:
  "\<exists>cs. create_chunks (\<lambda>x. x) example_transcript 3 = Inr cs
      \<and> map c_start_formatted cs = [''0:00:00'']
      \<and> map c_end_formatted cs = [''0:00:05'']"
proof -
  define c0 where "c0 = chunk_fields (\<lambda>x. x) example_transcript"
  have h: "(1::int) \<le> 3" by simp
  note inst = create_chunks_formatted [OF h, of "\<lambda>x. x" example_transcript]
  from conjunct1 [OF conjunct2 [OF inst]] example_in_range3
  obtain cs where cs: "create_chunks (\<lambda>x. x) example_transcript 3 = Inr cs"
    by blast
  note part = conjunct1 [OF inst]
  from part cs have all: "\<forall>c \<in> set cs.
              c_start_formatted c = expected_format (py_int (c_start_time c))
              \<and> c_end_formatted c = expected_format (py_int (c_end_time c))"
    by blast
  have "create_chunks (\<lambda>x. x) example_transcript 3
        = Inr (map (\<lambda>j. chunk_fields (\<lambda>x. x) (group_at example_transcript 3 j))
                 (py_range 0 (int (length example_transcript)) 3))"
    by (rule create_chunks_groups [OF _ example_in_range3]) simp
  also have "map (\<lambda>j. chunk_fields (\<lambda>x. x) (group_at example_transcript 3 j))
                 (py_range 0 (int (length example_transcript)) 3) = [c0]"
    unfolding c0_def by (simp add: py_range.simps group_at_def example_transcript_def)
  finally have "create_chunks (\<lambda>x. x) example_transcript 3 = Inr [c0]" .
  with cs have eq: "cs = [c0]" by simp
  have times: "c_start_time c0 = 0" "c_end_time c0 = 11 / 2"
    by (simp_all add: c0_def chunk_fields_def example_transcript_def)
  have "c0 \<in> set cs" unfolding eq by simp
  with all have "c_start_formatted c0 = expected_format (py_int (c_start_time c0))
      \<and> c_end_formatted c0 = expected_format (py_int (c_end_time c0))"
    by (rule bspec)
  then have "c_start_formatted c0 = expected_format (py_int 0)"
    "c_end_formatted c0 = expected_format (py_int (11 / 2))"
    unfolding times by simp_all
  moreover have "expected_format (py_int 0) = ''0:00:00''"
    "expected_format (py_int (11 / 2)) = ''0:00:05''"
    by (simp_all add: expected_format_def hms_def py_int_def str_int_def str_nat.simps
        digit_char_def Let_def)
  ultimately have "map c_start_formatted cs = [''0:00:00'']"
    "map c_end_formatted cs = [''0:00:05'']"
    unfolding eq by simp_all
  with cs have "create_chunks (\<lambda>x. x) example_transcript 3 = Inr cs
      \<and> map c_start_formatted cs = [''0:00:00'']
      \<and> map c_end_formatted cs = [''0:00:05'']"
    by (simp only: simp_thms)
  then show ?thesis by - (rule exI [of _ cs], assumption)
qed

text \<open>
  Claim C7 as stated fails from 24 hours on: a chunk starting at 90000 seconds is
  formatted \<open>1 day, 1:00:00\<close>, not \<open>25:00:00\<close>.
\<close>

theorem create_chunks_formatted_counterexample:
  "create_chunks (\<lambda>x. x) [\<lparr>e_text = ''x'', e_start = 90000, e_duration = 1\<rparr>] 1
     = Inr [\<lparr>c_text = ''x'', c_start_time = 90000, c_end_time = 90001,
             c_start_formatted = ''1 day, 1:00:00'', c_end_formatted = ''1 day, 1:00:01''\<rparr>]
   \<and> hms (py_int 90000) = ''25:00:00''"
  by (simp add: eval_chunks hms_def)

text \<open>
  Claim C8, as amended. A chunk size of zero raises the ValueError of
  \<^verbatim>\<open>range\<close>; a negative chunk size raises nothing and returns no chunk.
\<close>

theorem create_chunks_bad_chunk_size:
  assumes "chunk_size \<le> 0"
  shows "create_chunks rnd td chunk_size
         = (if chunk_size = 0 then Inl (ValueError ''range() arg 3 must not be zero'')
            else Inr [])"
  using assms by (simp add: create_chunks_def range3_def py_range.simps [of 0 _ chunk_size])

theorem create_chunks_bad_chunk_size_witness:
  "create_chunks (\<lambda>x. x) example_transcript 0
     = Inl (ValueError ''range() arg 3 must not be zero'')
   \<and> create_chunks (\<lambda>x. x) example_transcript (- 3) = Inr []"
  using create_chunks_bad_chunk_size [of 0 "\<lambda>x. x" example_transcript]
    create_chunks_bad_chunk_size [of "- 3" "\<lambda>x. x" example_transcript]
  by simp

text \<open>
  Claim C8 as stated fails: with chunk size \<open>-1\<close> the call succeeds, and with chunk
  size \<open>0\<close> the exception is a ValueError, not an InvalidConfiguration.
\<close>

theorem create_chunks_bad_chunk_size_counterexample:
  "create_chunks (\<lambda>x. x) [\<lparr>e_text = ''x'', e_start = 0, e_duration = 1\<rparr>] (- 1) = Inr []
   \<and> create_chunks (\<lambda>x. x) [\<lparr>e_text = ''x'', e_start = 0, e_duration = 1\<rparr>] 0
       = Inl (Exn ''ValueError'' ''range() arg 3 must not be zero'')
   \<and> ''ValueError'' \<noteq> ''InvalidConfiguration''"
  by (simp add: create_chunks_def range3_def py_range.simps)

section \<open>Properties of the indexer\<close>

lemma get_embedding_eq:
  "get_embedding svc t w =
     (embed_content svc ''models/embedding-001'' t ''retrieval_document'',
      World (indexes w) (calls w @ [EmbedContent ''models/embedding-001'' t ''retrieval_document'']))"
  by (simp add: get_embedding_def record_call_def Let_def)

lemma index_upsert_eq:
  "index_upsert svc idx r w =
     (case upsert_fault svc idx r of
        Some e \<Rightarrow> (Inl e, World (indexes w) (calls w @ [Upsert idx r]))
      | None \<Rightarrow>
          (Inr (), World ((indexes w)(idx := store_upsert r (indexes w idx))) (calls w @ [Upsert idx r])))"
  by (simp add: index_upsert_def record_call_def Let_def split: option.split)

lemma upsert_chunks_pure:
  "upsert_chunks svc idx vid i cs w =
     (loop_outcome svc idx vid i cs,
      World ((indexes w)(idx := fold store_upsert (loop_upserts svc idx vid i cs) (indexes w idx)))
        (calls w @ loop_calls svc idx vid i cs))"
proof (induction cs arbitrary: i w)
  case Nil
  show ?case by simp
next
  case (Cons c cs)
  let ?E = "EmbedContent ''models/embedding-001'' (c_text c) ''retrieval_document''"
  show ?case
  proof (cases "embed_content svc ''models/embedding-001'' (c_text c) ''retrieval_document''")
    case (Inl e)
    then show ?thesis
      by (simp add: get_embedding_eq chunk_failure_def chunk_calls_def)
  next
    case (Inr v)
    let ?r = "chunk_record vid i c v"
    show ?thesis
    proof (cases "upsert_fault svc idx ?r")
      case (Some e)
      with Inr show ?thesis
        by (simp add: get_embedding_eq index_upsert_eq chunk_failure_def chunk_calls_def)
    next
      case None
      let ?w2 = "World ((indexes w)(idx := store_upsert ?r (indexes w idx))) ((calls w @ [?E]) @ [Upsert idx ?r])"
      have step: "upsert_chunks svc idx vid i (c # cs) w = upsert_chunks svc idx vid (Suc i) cs ?w2"
        using Inr None by (simp add: get_embedding_eq index_upsert_eq)
      have fail: "chunk_failure svc idx vid i c = None"
        using Inr None by (simp add: chunk_failure_def)
      have cc: "chunk_calls svc idx vid i c = [?E, Upsert idx ?r]"
        using Inr by (simp add: chunk_calls_def)
      have emb: "embedding_of svc c = v"
        using Inr by (simp add: embedding_of_def)
      have ix: "(indexes ?w2)(idx := fold store_upsert (loop_upserts svc idx vid (Suc i) cs) (indexes ?w2 idx))
            = (indexes w)(idx := fold store_upsert (loop_upserts svc idx vid i (c # cs)) (indexes w idx))"
        by (simp add: fail emb)
      have cl: "calls ?w2 @ loop_calls svc idx vid (Suc i) cs = calls w @ loop_calls svc idx vid i (c # cs)"
        by (simp add: fail cc)
      have oc: "loop_outcome svc idx vid (Suc i) cs = loop_outcome svc idx vid i (c # cs)"
        by (simp add: fail)
      show ?thesis
        unfolding step Cons.IH [of "Suc i" ?w2] ix cl oc ..
    qed
  qed
qed

lemma four_entries_chunks: "create_chunks (\<lambda>x. x) four_entries 3 = Inr [chunk_abc, chunk_d]"
  by (simp add: four_entries_def chunk_abc_def chunk_d_def eval_chunks)

lemma index_video_transcript_ready:
  assumes "PINECONE_API_KEY env = Some key" "key \<noteq> []"
    and "open_index svc key (resolve_index_name env index_name) = None"
    and "json_loads svc transcript_data = Inr transcript"
    and "chunks_of_json (float_round svc) transcript = Inr chunks"
  shows "index_video_transcript env svc video_id transcript_data index_name w
         = upsert_chunks svc (resolve_index_name env index_name) video_id 0 chunks
             (World (indexes w) (calls w @ [PineconeIndex key (resolve_index_name env index_name)]))"
  using assms by (simp add: index_video_transcript_def record_call_def Let_def)


lemma index_video_transcript_pure:
  assumes "PINECONE_API_KEY env = Some key" "key \<noteq> []"
    and "open_index svc key (resolve_index_name env index_name) = None"
    and "json_loads svc transcript_data = Inr transcript"
    and "chunks_of_json (float_round svc) transcript = Inr chunks"
  shows "index_video_transcript env svc video_id transcript_data index_name w
         = (loop_outcome svc (resolve_index_name env index_name) video_id 0 chunks,
            World ((indexes w)(resolve_index_name env index_name :=
                     fold store_upsert
                       (loop_upserts svc (resolve_index_name env index_name) video_id 0 chunks)
                       (indexes w (resolve_index_name env index_name))))
              (calls w @ PineconeIndex key (resolve_index_name env index_name)
                 # loop_calls svc (resolve_index_name env index_name) video_id 0 chunks))"
  unfolding index_video_transcript_ready [OF assms] upsert_chunks_pure by simp



lemma example_setup:
  "PINECONE_API_KEY env0 = Some ''key''"
  "resolve_index_name env0 None = ''video-search''"
  "open_index svc_fail ''key'' ''video-search'' = None"
  "json_loads svc_fail ''[...]'' = Inr (JEntries four_entries)"
  "chunks_of_json (float_round svc_fail) (JEntries four_entries) = Inr [chunk_abc, chunk_d]"
  by (simp_all add: env0_def svc_fail_def svc0_def resolve_index_name_def chunks_of_json_def
      four_entries_chunks)




text \<open>
  Claim C10. Without a Pinecone API key in the environment (unset, or set to the empty
  string), \<open>index_video_transcript\<close> and \<open>search_videos\<close> raise ValueError and leave
  the world as it was: no call is made and no index changes.
\<close>

theorem missing_api_key_no_contact:
  assumes "PINECONE_API_KEY env = None \<or> PINECONE_API_KEY env = Some []"
  shows "index_video_transcript env svc video_id transcript_data index_name w
           = (Inl (ValueError ''PINECONE_API_KEY not found in environment variables''), w)
         \<and> search_videos env svc query top_k index_name w
           = (Inl (ValueError ''PINECONE_API_KEY not found in environment variables''), w)"
  using assms
  by (auto simp: index_video_transcript_def search_videos_def Let_def)

theorem missing_api_key_no_contact_witness:
  "index_video_transcript env_no_key svc0 ''vid'' ''[...]'' None w0
     = (Inl (ValueError ''PINECONE_API_KEY not found in environment variables''), w0)
   \<and> search_videos env_no_key svc0 ''hello'' 5 None w0
     = (Inl (ValueError ''PINECONE_API_KEY not found in environment variables''), w0)"
proof -
  have "PINECONE_API_KEY env_no_key = None \<or> PINECONE_API_KEY env_no_key = Some []"
    by (simp add: env_no_key_def)
  then show ?thesis by (rule missing_api_key_no_contact)
qed

text \<open>
  Claim C9, as amended. When the transcript collaborator raises an exception that derives
  from \<^verbatim>\<open>Exception\<close>, \<open>get_transcript\<close> returns \<^verbatim>\<open>None\<close> to its caller and does not
  raise; any other exception goes on to the caller as it is.
\<close>

theorem get_transcript_swallows_failure:
  assumes "api video_id = Inl e"
  shows "get_transcript api video_id = (if derives_from_Exception e then Inr None else Inl e)"
  using assms by (simp add: get_transcript_def)

theorem get_transcript_swallows_failure_witness:
  "get_transcript no_captions_api ''aYK0H85E_oU'' = Inr None"
proof -
  have "no_captions_api ''aYK0H85E_oU''
        = Inl (Exn ''TranscriptsDisabled'' ''Subtitles are disabled for this video'')"
    by (simp add: no_captions_api_def)
  from get_transcript_swallows_failure [of no_captions_api "''aYK0H85E_oU''", OF this]
  show ?thesis
    by (simp add: derives_from_Exception_def)
qed

text \<open>
  Claim C9 as stated fails: the collaborator reports disabled captions and
  \<open>get_transcript\<close> returns a value, not an error.
\<close>

theorem get_transcript_counterexample:
  "no_captions_api ''aYK0H85E_oU''
     = Inl (Exn ''TranscriptsDisabled'' ''Subtitles are disabled for this video'')
   \<and> get_transcript no_captions_api ''aYK0H85E_oU'' = Inr None"
  by (simp add: no_captions_api_def get_transcript_def derives_from_Exception_def)

lemma embed_requests_append:
  "embed_requests (xs @ ys) = embed_requests xs @ embed_requests ys"
  by (induction xs rule: embed_requests.induct) simp_all

lemma embed_requests_chunk_calls:
  "embed_requests (chunk_calls svc idx vid i c) = [(c_text c, ''retrieval_document'')]"
  by (simp add: chunk_calls_def split: sum.split)

lemma embed_requests_loop:
  "\<exists>n\<le>length cs.
     embed_requests (loop_calls svc idx vid i cs)
       = map (\<lambda>c. (c_text c, ''retrieval_document'')) (take n cs)
     \<and> (loop_outcome svc idx vid i cs = Inr () \<longrightarrow> n = length cs)"
proof (induction cs arbitrary: i)
  case Nil
  show ?case by simp
next
  case (Cons c cs)
  show ?case
  proof (cases "chunk_failure svc idx vid i c")
    case (Some e)
    have "embed_requests (loop_calls svc idx vid i (c # cs))
          = map (\<lambda>c. (c_text c, ''retrieval_document'')) (take (Suc 0) (c # cs))"
      by (simp add: Some embed_requests_chunk_calls)
    moreover have "loop_outcome svc idx vid i (c # cs) \<noteq> Inr ()"
      by (simp add: Some)
    ultimately show ?thesis
      by (intro exI [of _ "Suc 0"]) simp
  next
    case None
    from Cons.IH [of "Suc i"] obtain n where n: "n \<le> length cs"
      "embed_requests (loop_calls svc idx vid (Suc i) cs)
         = map (\<lambda>c. (c_text c, ''retrieval_document'')) (take n cs)"
      "loop_outcome svc idx vid (Suc i) cs = Inr () \<longrightarrow> n = length cs"
      by blast
    have "embed_requests (loop_calls svc idx vid i (c # cs))
          = map (\<lambda>c. (c_text c, ''retrieval_document'')) (take (Suc n) (c # cs))"
      by (simp add: None embed_requests_append embed_requests_chunk_calls n(2))
    moreover have "loop_outcome svc idx vid i (c # cs) = Inr () \<longrightarrow> Suc n = length (c # cs)"
      using n(3) by (simp add: None)
    moreover have "Suc n \<le> length (c # cs)" using n(1) by simp
    ultimately show ?thesis by blast
  qed
qed

lemma search_videos_calls:
  assumes "PINECONE_API_KEY env = Some key" "key \<noteq> []"
    and "open_index svc key (resolve_index_name env index_name) = None"
  shows "calls (snd (search_videos env svc query top_k index_name w))
         = calls w @ PineconeIndex key (resolve_index_name env index_name)
             # EmbedContent ''models/embedding-001'' query ''retrieval_document''
             # (case embed_content svc ''models/embedding-001'' query ''retrieval_document'' of
                  Inl e \<Rightarrow> []
                | Inr v \<Rightarrow> [Query (resolve_index_name env index_name) v top_k True])"
  using assms
  by (simp add: search_videos_def get_embedding_eq index_query_def record_call_def Let_def
      split: sum.split option.split)

text \<open>
  Claim C4, as amended. Indexing embeds the chunk texts in order, each with the task type
  \<^verbatim>\<open>retrieval_document\<close>, up to the first failure and all of them when it succeeds;
  a search embeds its query with the same task type \<^verbatim>\<open>retrieval_document\<close>, which is
  the DOCUMENT intent.
\<close>

theorem embeddings_use_document_task_type:
  assumes "PINECONE_API_KEY env = Some key" "key \<noteq> []"
    and "open_index svc key (resolve_index_name env index_name) = None"
    and "json_loads svc transcript_data = Inr transcript"
    and "chunks_of_json (float_round svc) transcript = Inr chunks"
  shows "(\<exists>n\<le>length chunks.
            embed_requests (drop (length (calls w))
              (calls (snd (index_video_transcript env svc video_id transcript_data index_name w))))
              = map (\<lambda>c. (c_text c, ''retrieval_document'')) (take n chunks)
            \<and> (fst (index_video_transcript env svc video_id transcript_data index_name w) = Inr ()
                 \<longrightarrow> n = length chunks))
         \<and> embed_requests (drop (length (calls w))
              (calls (snd (search_videos env svc query top_k index_name w))))
              = [(query, ''retrieval_document'')]
         \<and> task_type_intent ''retrieval_document'' = Some DOCUMENT"
proof -
  let ?idx = "resolve_index_name env index_name"
  from embed_requests_loop [of chunks svc ?idx video_id 0]
  obtain n where n: "n \<le> length chunks"
    "embed_requests (loop_calls svc ?idx video_id 0 chunks)
       = map (\<lambda>c. (c_text c, ''retrieval_document'')) (take n chunks)"
    "loop_outcome svc ?idx video_id 0 chunks = Inr () \<longrightarrow> n = length chunks"
    by blast
  have a: "embed_requests (drop (length (calls w))
              (calls (snd (index_video_transcript env svc video_id transcript_data index_name w))))
           = map (\<lambda>c. (c_text c, ''retrieval_document'')) (take n chunks)"
    unfolding index_video_transcript_pure [OF assms] using n(2) by simp
  have b: "fst (index_video_transcript env svc video_id transcript_data index_name w) = Inr ()
           \<longrightarrow> n = length chunks"
    unfolding index_video_transcript_pure [OF assms] using n(3) by simp
  have c: "embed_requests (drop (length (calls w))
              (calls (snd (search_videos env svc query top_k index_name w))))
           = [(query, ''retrieval_document'')]"
    unfolding search_videos_calls [OF assms(1-3)] by (simp split: sum.split)
  have d: "task_type_intent ''retrieval_document'' = Some DOCUMENT"
    by (simp add: task_type_intent_def)
  from n(1) a b c d show ?thesis by blast
qed

lemma example_setup0:
  "open_index svc0 ''key'' ''video-search'' = None"
  "json_loads svc0 ''[...]'' = Inr (JEntries four_entries)"
  "chunks_of_json (float_round svc0) (JEntries four_entries) = Inr [chunk_abc, chunk_d]"
  by (simp_all add: svc0_def chunks_of_json_def four_entries_chunks)

theorem embeddings_use_document_task_type_witness:
  "embed_requests (calls (snd (index_video_transcript env0 svc0 ''vid'' ''[...]'' None w0)))
     = [(''a b c'', ''retrieval_document''), (''d'', ''retrieval_document'')]
   \<and> embed_requests (calls (snd (search_videos env0 svc0 ''hello'' 5 None w0)))
     = [(''hello'', ''retrieval_document'')]"
proof -
  have k: "''key'' \<noteq> []" by simp
  have o: "open_index svc0 ''key'' (resolve_index_name env0 None) = None"
    by (simp add: example_setup example_setup0)
  from embeddings_use_document_task_type
    [OF example_setup(1) k o example_setup0(2) example_setup0(3), of w0 "''vid''" "''hello''" 5]
  obtain n where n: "n \<le> length [chunk_abc, chunk_d]"
    "embed_requests (drop (length (calls w0))
       (calls (snd (index_video_transcript env0 svc0 ''vid'' ''[...]'' None w0))))
     = map (\<lambda>c. (c_text c, ''retrieval_document'')) (take n [chunk_abc, chunk_d])"
    "fst (index_video_transcript env0 svc0 ''vid'' ''[...]'' None w0) = Inr ()
       \<longrightarrow> n = length [chunk_abc, chunk_d]"
    and s: "embed_requests (drop (length (calls w0))
       (calls (snd (search_videos env0 svc0 ''hello'' 5 None w0))))
     = [(''hello'', ''retrieval_document'')]"
    by blast
  have "fst (index_video_transcript env0 svc0 ''vid'' ''[...]'' None w0) = Inr ()"
    unfolding index_video_transcript_pure
      [OF example_setup(1) k o example_setup0(2) example_setup0(3)]
    by (simp add: chunk_failure_def svc0_def)
  with n(3) have "n = 2" by simp
  with n(2) s show ?thesis
    by (simp add: w0_def chunk_abc_def chunk_d_def)
qed

text \<open>
  Claim C4 as stated fails for the query: the embedding call of a search carries the
  DOCUMENT task type, not the QUERY one.
\<close>

theorem embeddings_use_document_task_type_counterexample:
  "embed_requests (calls (snd (search_videos env0 svc0 ''hello'' 5 None w0)))
     = [(''hello'', ''retrieval_document'')]
   \<and> task_type_intent ''retrieval_document'' = Some DOCUMENT
   \<and> task_type_intent ''retrieval_document'' \<noteq> Some QUERY"
proof -
  have k: "''key'' \<noteq> []" by simp
  have o: "open_index svc0 ''key'' (resolve_index_name env0 None) = None"
    by (simp add: example_setup example_setup0)
  show ?thesis
    unfolding search_videos_calls [OF example_setup(1) k o]
    by (simp add: w0_def task_type_intent_def split: sum.split)
qed

lemma store_query_length: "length (store_query score st q top_k) \<le> nat top_k"
  by (simp add: store_query_def)

lemma store_query_descending:
  "sorted (map (\<lambda>m. - m_score m) (store_query score st q top_k))"
proof -
  have "sorted (map (\<lambda>m. - m_score m)
          (sort_key (\<lambda>m. - m_score m)
             (map (\<lambda>r. \<lparr>m_id = v_id r, m_score = score q (v_values r), m_metadata = v_metadata r\<rparr>) st)))"
    by (rule sorted_sort_key)
  then show ?thesis
    unfolding store_query_def take_map [symmetric] by (rule sorted_wrt_take)
qed

lemma search_videos_ready:
  assumes "PINECONE_API_KEY env = Some key" "key \<noteq> []"
    and "open_index svc key (resolve_index_name env index_name) = None"
    and "embed_content svc ''models/embedding-001'' query ''retrieval_document'' = Inr qv"
    and "query_fault svc (resolve_index_name env index_name) qv top_k = None"
  shows "search_videos env svc query top_k index_name w
         = (Inr (map result_of_match
                  (store_query (metric svc) (indexes w (resolve_index_name env index_name)) qv top_k)),
            World (indexes w)
              (calls w @ [PineconeIndex key (resolve_index_name env index_name),
                          EmbedContent ''models/embedding-001'' query ''retrieval_document'',
                          Query (resolve_index_name env index_name) qv top_k True]))"
  using assms
  by (simp add: search_videos_def get_embedding_eq index_query_def record_call_def Let_def)

text \<open>
  Claim C5. With the key set, the index open, the query embedded and no refusal by the
  store, a search with a positive \<open>top_k\<close> returns results and changes no index; there
  are at most \<open>top_k\<close> of them, one per match of the store in the same order, each with
  the fields of its match; scores do not increase along the list; and without a match the
  list is empty.
\<close>

theorem search_videos_results:
  assumes "PINECONE_API_KEY env = Some key" "key \<noteq> []"
    and "open_index svc key (resolve_index_name env index_name) = None"
    and "embed_content svc ''models/embedding-001'' query ''retrieval_document'' = Inr qv"
    and "query_fault svc (resolve_index_name env index_name) qv top_k = None"
    and "0 < top_k"
  shows "\<exists>rs. fst (search_videos env svc query top_k index_name w) = Inr rs
           \<and> indexes (snd (search_videos env svc query top_k index_name w)) = indexes w
           \<and> int (length rs) \<le> top_k
           \<and> (let ms = store_query (metric svc) (indexes w (resolve_index_name env index_name)) qv top_k
              in length rs = length ms
                 \<and> (\<forall>i<length rs.
                       r_video_id (rs ! i) = md_video_id (m_metadata (ms ! i))
                       \<and> r_text (rs ! i) = md_text (m_metadata (ms ! i))
                       \<and> r_start_time (rs ! i) = md_start_time (m_metadata (ms ! i))
                       \<and> r_end_time (rs ! i) = md_end_time (m_metadata (ms ! i))
                       \<and> r_start_formatted (rs ! i) = md_start_formatted (m_metadata (ms ! i))
                       \<and> r_end_formatted (rs ! i) = md_end_formatted (m_metadata (ms ! i))
                       \<and> r_score (rs ! i) = m_score (ms ! i))
                 \<and> (ms = [] \<longrightarrow> rs = []))
           \<and> (\<forall>i j. i \<le> j \<and> j < length rs \<longrightarrow> r_score (rs ! j) \<le> r_score (rs ! i))"
proof -
  let ?ms = "store_query (metric svc) (indexes w (resolve_index_name env index_name)) qv top_k"
  let ?rs = "map result_of_match ?ms"
  note run = search_videos_ready [OF assms(1-5), of w]
  have r: "fst (search_videos env svc query top_k index_name w) = Inr ?rs"
    unfolding run by simp
  have ix: "indexes (snd (search_videos env svc query top_k index_name w)) = indexes w"
    unfolding run by simp
  have "length ?ms \<le> nat top_k" by (rule store_query_length)
  then have len: "int (length ?rs) \<le> top_k" using assms(6) by simp
  have fields: "let ms = ?ms
              in length ?rs = length ms
                 \<and> (\<forall>i<length ?rs.
                       r_video_id (?rs ! i) = md_video_id (m_metadata (ms ! i))
                       \<and> r_text (?rs ! i) = md_text (m_metadata (ms ! i))
                       \<and> r_start_time (?rs ! i) = md_start_time (m_metadata (ms ! i))
                       \<and> r_end_time (?rs ! i) = md_end_time (m_metadata (ms ! i))
                       \<and> r_start_formatted (?rs ! i) = md_start_formatted (m_metadata (ms ! i))
                       \<and> r_end_formatted (?rs ! i) = md_end_formatted (m_metadata (ms ! i))
                       \<and> r_score (?rs ! i) = m_score (ms ! i))
                 \<and> (ms = [] \<longrightarrow> ?rs = [])"
    by (simp add: Let_def result_of_match_def)
  have order: "r_score (?rs ! j) \<le> r_score (?rs ! i)" if "i \<le> j \<and> j < length ?rs" for i j
  proof -
    have j: "j < length ?ms" and i: "i < length ?ms" using that by simp_all
    have "sorted (map (\<lambda>m. - m_score m) ?ms)" by (rule store_query_descending)
    then have "map (\<lambda>m. - m_score m) ?ms ! i \<le> map (\<lambda>m. - m_score m) ?ms ! j"
      using that j by (intro sorted_nth_mono) simp_all
    then have "m_score (?ms ! j) \<le> m_score (?ms ! i)" using i j by simp
    then show ?thesis using i j by (simp add: result_of_match_def)
  qed
  from r ix len fields order show ?thesis by blast
qed

theorem search_videos_results_witness:
  "fst (search_videos env0 svc0 ''hello'' 1 None (World (\<lambda>n. two_records) []))
   = Inr [\<lparr>r_video_id = ''vid'', r_text = ''a b c'', r_start_time = 0, r_end_time = 3,
            r_start_formatted = ''0:00:00'', r_end_formatted = ''0:00:03'', r_score = 0\<rparr>]"
proof -
  let ?w = "World (\<lambda>n. two_records) []"
  have k: "''key'' \<noteq> []" by simp
  have o: "open_index svc0 ''key'' (resolve_index_name env0 None) = None"
    by (simp add: example_setup example_setup0)
  have e: "embed_content svc0 ''models/embedding-001'' ''hello'' ''retrieval_document'' = Inr [5, 1]"
    by (simp add: svc0_def)
  have q: "query_fault svc0 (resolve_index_name env0 None) [5, 1] 1 = None"
    by (simp add: svc0_def)
  have t: "(0::int) < 1" by simp
  have ms: "store_query (metric svc0) (indexes ?w (resolve_index_name env0 None)) [5, 1] 1
            = [\<lparr>m_id = ''vid_chunk_0'', m_score = 0,
                 m_metadata = v_metadata (chunk_record ''vid'' 0 chunk_abc [5, 1])\<rparr>]"
    by (simp add: store_query_def two_records_def svc0_def chunk_record_def chunk_id_def
        str_nat.simps digit_char_def)
  from search_videos_results [OF example_setup(1) k o e q t, of ?w]
  obtain rs where rs: "fst (search_videos env0 svc0 ''hello'' 1 None ?w) = Inr rs"
    and fields: "let ms = store_query (metric svc0) (indexes ?w (resolve_index_name env0 None)) [5, 1] 1
              in length rs = length ms
                 \<and> (\<forall>i<length rs.
                       r_video_id (rs ! i) = md_video_id (m_metadata (ms ! i))
                       \<and> r_text (rs ! i) = md_text (m_metadata (ms ! i))
                       \<and> r_start_time (rs ! i) = md_start_time (m_metadata (ms ! i))
                       \<and> r_end_time (rs ! i) = md_end_time (m_metadata (ms ! i))
                       \<and> r_start_formatted (rs ! i) = md_start_formatted (m_metadata (ms ! i))
                       \<and> r_end_formatted (rs ! i) = md_end_formatted (m_metadata (ms ! i))
                       \<and> r_score (rs ! i) = m_score (ms ! i))
                 \<and> (ms = [] \<longrightarrow> rs = [])"
    by blast
  from fields have len: "length rs = 1"
    and f: "r_video_id (rs ! 0) = ''vid'' \<and> r_text (rs ! 0) = ''a b c''
       \<and> r_start_time (rs ! 0) = 0 \<and> r_end_time (rs ! 0) = 3
       \<and> r_start_formatted (rs ! 0) = ''0:00:00'' \<and> r_end_formatted (rs ! 0) = ''0:00:03''
       \<and> r_score (rs ! 0) = 0"
    unfolding ms by (simp_all add: Let_def chunk_record_def chunk_abc_def)
  from len obtain r where r: "rs = [r]" by (cases rs) auto
  with f have "r = \<lparr>r_video_id = ''vid'', r_text = ''a b c'', r_start_time = 0, r_end_time = 3,
            r_start_formatted = ''0:00:00'', r_end_formatted = ''0:00:03'', r_score = 0\<rparr>"
    by simp
  with rs r show ?thesis by simp
qed

lemma digit_val_digit_char: "d < 10 \<Longrightarrow> digit_val (digit_char d) = d"
proof -
  assume "d < 10"
  then have "d = 0 \<or> d = 1 \<or> d = 2 \<or> d = 3 \<or> d = 4 \<or> d = 5 \<or> d = 6 \<or> d = 7 \<or> d = 8 \<or> d = 9"
    by arith
  then show ?thesis
    by (elim disjE) (simp_all add: digit_char_def digit_val_def)
qed

lemma decimal_value_str_nat: "decimal_value (str_nat n) = n"
proof (induction n rule: str_nat.induct)
  case (1 n)
  show ?case
  proof (cases "n < 10")
    case True
    then show ?thesis
      by (simp add: str_nat.simps [of n] decimal_value_def digit_val_digit_char)
  next
    case False
    then have "decimal_value (str_nat (n div 10)) = n div 10" using 1 by simp
    then have "decimal_value (str_nat n) = 10 * (n div 10) + digit_val (digit_char (n mod 10))"
      using False by (simp add: str_nat.simps [of n] decimal_value_def)
    then show ?thesis by (simp add: digit_val_digit_char)
  qed
qed

lemma str_nat_inj: "str_nat m = str_nat n \<Longrightarrow> m = n"
proof -
  assume "str_nat m = str_nat n"
  then have "decimal_value (str_nat m) = decimal_value (str_nat n)" by (rule arg_cong)
  then show "m = n" by (simp only: decimal_value_str_nat)
qed

lemma chunk_id_inj: "chunk_id vid m = chunk_id vid n \<Longrightarrow> m = n"
  by (simp add: chunk_id_def str_nat_inj)

lemma distinct_chunk_ids: "distinct (map (chunk_id vid) [i..<j])"
  by (simp add: distinct_map inj_on_def chunk_id_inj)

lemma find_store_upsert:
  "find (\<lambda>x. v_id x = k) (store_upsert r st)
   = (if v_id r = k then Some r else find (\<lambda>x. v_id x = k) st)"
  by (induction st) auto

lemma store_upsert_same:
  "find (\<lambda>x. v_id x = v_id r) st = Some r \<Longrightarrow> store_upsert r st = st"
  by (induction st) (auto split: if_splits)

lemma find_fold_store_upsert_other:
  "k \<notin> v_id ` set rs \<Longrightarrow>
     find (\<lambda>x. v_id x = k) (fold store_upsert rs st) = find (\<lambda>x. v_id x = k) st"
  by (induction rs arbitrary: st) (auto simp: find_store_upsert)

lemma find_fold_store_upsert:
  "distinct (map v_id rs) \<Longrightarrow> r \<in> set rs \<Longrightarrow>
     find (\<lambda>x. v_id x = v_id r) (fold store_upsert rs st) = Some r"
proof (induction rs arbitrary: st)
  case Nil
  then show ?case by simp
next
  case (Cons a rs)
  show ?case
  proof (cases "r = a")
    case True
    have "v_id a \<notin> v_id ` set rs" using Cons.prems(1) by simp
    then show ?thesis
      using True by (simp add: find_fold_store_upsert_other find_store_upsert)
  next
    case False
    then have "r \<in> set rs" using Cons.prems(2) by simp
    moreover have "distinct (map v_id rs)" using Cons.prems(1) by simp
    ultimately show ?thesis using Cons.IH by simp
  qed
qed

lemma fold_store_upsert_present:
  "\<forall>r \<in> set rs. find (\<lambda>x. v_id x = v_id r) st = Some r \<Longrightarrow> fold store_upsert rs st = st"
  by (induction rs) (simp_all add: store_upsert_same)

lemma fold_store_upsert_twice:
  assumes "distinct (map v_id rs)"
  shows "fold store_upsert rs (fold store_upsert rs st) = fold store_upsert rs st"
  by (rule fold_store_upsert_present) (simp add: find_fold_store_upsert [OF assms])

lemma loop_upserts_ids:
  "map v_id (loop_upserts svc idx vid i cs)
   = map (chunk_id vid) [i..<i + length (loop_upserts svc idx vid i cs)]"
proof (induction cs arbitrary: i)
  case Nil
  show ?case by simp
next
  case (Cons c cs)
  show ?case
  proof (cases "chunk_failure svc idx vid i c")
    case (Some e)
    then show ?thesis by simp
  next
    case None
    have "map v_id (loop_upserts svc idx vid i (c # cs))
          = chunk_id vid i # map (chunk_id vid)
              [Suc i..<Suc i + length (loop_upserts svc idx vid (Suc i) cs)]"
      using Cons.IH [of "Suc i"] by (simp add: None chunk_record_def)
    then show ?thesis
      by (simp add: None upt_conv_Cons del: upt_Suc)
  qed
qed

lemma upsert_requests_append:
  "upsert_requests (xs @ ys) = upsert_requests xs @ upsert_requests ys"
  by (induction xs rule: upsert_requests.induct) simp_all

lemma upsert_requests_loop:
  "\<exists>n\<le>length cs.
     upsert_requests (loop_calls svc idx vid i cs)
       = map (\<lambda>m. chunk_record vid (i + m) (cs ! m) (embedding_of svc (cs ! m))) [0..<n]
     \<and> (loop_outcome svc idx vid i cs = Inr () \<longrightarrow> n = length cs)"
proof (induction cs arbitrary: i)
  case Nil
  show ?case by simp
next
  case (Cons c cs)
  let ?f = "\<lambda>cs i m. chunk_record vid (i + m) (cs ! m) (embedding_of svc (cs ! m))"
  show ?case
  proof (cases "embed_content svc ''models/embedding-001'' (c_text c) ''retrieval_document''")
    case (Inl e)
    then have "upsert_requests (loop_calls svc idx vid i (c # cs)) = map (?f (c # cs) i) [0..<0]"
      and "loop_outcome svc idx vid i (c # cs) \<noteq> Inr ()"
      by (simp_all add: chunk_calls_def chunk_failure_def)
    then show ?thesis by (intro exI [of _ 0]) simp
  next
    case (Inr v)
    have emb: "embedding_of svc c = v" using Inr by (simp add: embedding_of_def)
    show ?thesis
    proof (cases "upsert_fault svc idx (chunk_record vid i c v)")
      case (Some e)
      then have "upsert_requests (loop_calls svc idx vid i (c # cs)) = map (?f (c # cs) i) [0..<Suc 0]"
        and "loop_outcome svc idx vid i (c # cs) \<noteq> Inr ()"
        using Inr by (simp_all add: chunk_calls_def chunk_failure_def emb)
      then show ?thesis by (intro exI [of _ "Suc 0"]) simp
    next
      case None
      from Cons.IH [of "Suc i"] obtain n where n: "n \<le> length cs"
        "upsert_requests (loop_calls svc idx vid (Suc i) cs) = map (?f cs (Suc i)) [0..<n]"
        "loop_outcome svc idx vid (Suc i) cs = Inr () \<longrightarrow> n = length cs"
        by blast
      have fail: "chunk_failure svc idx vid i c = None"
        using Inr None by (simp add: chunk_failure_def)
      have "upsert_requests (loop_calls svc idx vid i (c # cs))
            = chunk_record vid i c v # map (?f cs (Suc i)) [0..<n]"
        using Inr by (simp add: fail upsert_requests_append chunk_calls_def n(2))
      also have "\<dots> = map (?f (c # cs) i) [0..<Suc n]"
        by (simp add: upt_conv_Cons map_Suc_upt [symmetric] comp_def emb del: upt_Suc)
      finally have "upsert_requests (loop_calls svc idx vid i (c # cs))
            = map (?f (c # cs) i) [0..<Suc n]" .
      moreover have "loop_outcome svc idx vid i (c # cs) = Inr () \<longrightarrow> Suc n = length (c # cs)"
        using n(3) by (simp add: fail)
      moreover have "Suc n \<le> length (c # cs)" using n(1) by simp
      ultimately show ?thesis by blast
    qed
  qed
qed

text \<open>
  Claim C2. The upsert requests of an indexing run are those of the chunks in order: the
  request at position \<open>m\<close> is for chunk \<open>m\<close> and has the id \<open>video_id_chunk_m\<close>, with \<open>m\<close>
  in decimal; the ids are distinct; a successful run has one request per chunk. A second
  run on the same input, with collaborators that answer as before, has the same outcome,
  makes the same upsert requests and leaves every index as the first run left it.
\<close>

theorem index_video_transcript_ids_idempotent:
  assumes "PINECONE_API_KEY env = Some key" "key \<noteq> []"
    and "open_index svc key (resolve_index_name env index_name) = None"
    and "json_loads svc transcript_data = Inr transcript"
    and "chunks_of_json (float_round svc) transcript = Inr chunks"
  shows "let run1 = index_video_transcript env svc video_id transcript_data index_name w;
             run2 = index_video_transcript env svc video_id transcript_data index_name (snd run1);
             ups1 = upsert_requests (drop (length (calls w)) (calls (snd run1)));
             ups2 = upsert_requests (drop (length (calls (snd run1))) (calls (snd run2)))
         in length ups1 \<le> length chunks
            \<and> (fst run1 = Inr () \<longrightarrow> length ups1 = length chunks)
            \<and> (\<forall>m<length ups1.
                  ups1 ! m = chunk_record video_id m (chunks ! m) (embedding_of svc (chunks ! m))
                  \<and> v_id (ups1 ! m) = video_id @ ''_chunk_'' @ str_nat m)
            \<and> distinct (map v_id ups1)
            \<and> fst run2 = fst run1
            \<and> ups2 = ups1
            \<and> indexes (snd run2) = indexes (snd run1)"
proof -
  let ?idx = "resolve_index_name env index_name"
  let ?U = "loop_upserts svc ?idx video_id 0 chunks"
  let ?L = "loop_calls svc ?idx video_id 0 chunks"
  let ?O = "loop_outcome svc ?idx video_id 0 chunks"
  let ?f = "\<lambda>m. chunk_record video_id m (chunks ! m) (embedding_of svc (chunks ! m))"
  define run1 where "run1 = index_video_transcript env svc video_id transcript_data index_name w"
  define run2 where
    "run2 = index_video_transcript env svc video_id transcript_data index_name (snd run1)"
  define ups1 where "ups1 = upsert_requests (drop (length (calls w)) (calls (snd run1)))"
  define ups2 where
    "ups2 = upsert_requests (drop (length (calls (snd run1))) (calls (snd run2)))"
  have r1: "run1 = (?O, World ((indexes w)(?idx := fold store_upsert ?U (indexes w ?idx)))
                          (calls w @ PineconeIndex key ?idx # ?L))"
    unfolding run1_def by (rule index_video_transcript_pure [OF assms])
  have r2: "run2 = (?O, World ((indexes (snd run1))(?idx := fold store_upsert ?U (indexes (snd run1) ?idx)))
                          (calls (snd run1) @ PineconeIndex key ?idx # ?L))"
    unfolding run2_def by (rule index_video_transcript_pure [OF assms])
  from upsert_requests_loop [of chunks svc ?idx video_id 0]
  obtain n where n: "n \<le> length chunks"
    "upsert_requests ?L = map ?f [0..<n]"
    "?O = Inr () \<longrightarrow> n = length chunks"
    by auto
  have u1: "ups1 = map ?f [0..<n]"
    unfolding ups1_def r1 using n(2) by simp
  have u2: "ups2 = map ?f [0..<n]"
    unfolding ups2_def r2 using n(2) by simp
  have len: "length ups1 = n" unfolding u1 by simp
  have ids: "map v_id ups1 = map (chunk_id video_id) [0..<n]"
    unfolding u1 by (simp add: chunk_record_def)
  have d1: "distinct (map v_id ups1)"
    unfolding ids by (rule distinct_chunk_ids)
  have nth: "ups1 ! m = ?f m \<and> v_id (ups1 ! m) = video_id @ ''_chunk_'' @ str_nat m"
    if "m < length ups1" for m
    using that unfolding u1 by (simp add: chunk_record_def chunk_id_def)
  have "distinct (map v_id ?U)"
    unfolding loop_upserts_ids by (rule distinct_chunk_ids)
  then have twice: "fold store_upsert ?U (fold store_upsert ?U (indexes w ?idx))
                    = fold store_upsert ?U (indexes w ?idx)"
    by (rule fold_store_upsert_twice)
  have ix: "indexes (snd run2) = indexes (snd run1)"
    unfolding r2 unfolding r1 by (simp add: twice)
  have o: "fst run2 = fst run1" unfolding r2 unfolding r1 by simp
  have o1: "fst run1 = Inr () \<longrightarrow> length ups1 = length chunks"
    unfolding len using n(3) unfolding r1 by simp
  have "length ups1 \<le> length chunks
        \<and> (fst run1 = Inr () \<longrightarrow> length ups1 = length chunks)
        \<and> (\<forall>m<length ups1.
              ups1 ! m = chunk_record video_id m (chunks ! m) (embedding_of svc (chunks ! m))
              \<and> v_id (ups1 ! m) = video_id @ ''_chunk_'' @ str_nat m)
        \<and> distinct (map v_id ups1)
        \<and> fst run2 = fst run1
        \<and> ups2 = ups1
        \<and> indexes (snd run2) = indexes (snd run1)"
    using n(1) len o1 nth d1 o u1 u2 ix by simp
  then show ?thesis
    unfolding Let_def run1_def [symmetric] run2_def [symmetric] ups1_def [symmetric]
      ups2_def [symmetric] .
qed

theorem index_video_transcript_ids_idempotent_witness:
  "fst (index_video_transcript env0 svc0 ''vid'' ''[...]'' None w0) = Inr ()
   \<and> map v_id (upsert_requests
         (calls (snd (index_video_transcript env0 svc0 ''vid'' ''[...]'' None w0))))
       = [''vid_chunk_0'', ''vid_chunk_1'']
   \<and> indexes (snd (index_video_transcript env0 svc0 ''vid'' ''[...]'' None
         (snd (index_video_transcript env0 svc0 ''vid'' ''[...]'' None w0))))
       = indexes (snd (index_video_transcript env0 svc0 ''vid'' ''[...]'' None w0))"
proof -
  define run1 where "run1 = index_video_transcript env0 svc0 ''vid'' ''[...]'' None w0"
  define run2 where "run2 = index_video_transcript env0 svc0 ''vid'' ''[...]'' None (snd run1)"
  define ups1 where "ups1 = upsert_requests (calls (snd run1))"
  have k: "''key'' \<noteq> []" by simp
  have o: "open_index svc0 ''key'' (resolve_index_name env0 None) = None"
    by (simp add: example_setup example_setup0)
  have c0: "calls w0 = []" by (simp add: w0_def)
  note inst = index_video_transcript_ids_idempotent
    [OF example_setup(1) k o example_setup0(2) example_setup0(3), of "''vid''" w0,
     unfolded Let_def c0 list.size drop_0, folded run1_def, folded run2_def, folded ups1_def]
  have ok: "fst run1 = Inr ()"
    unfolding run1_def index_video_transcript_pure
      [OF example_setup(1) k o example_setup0(2) example_setup0(3)]
    by (simp add: chunk_failure_def svc0_def)
  from inst have "fst run1 = Inr () \<longrightarrow> length ups1 = 0 + Suc 0 + Suc 0"
    by (elim conjE)
  with ok have len: "length ups1 = 2" by simp
  from inst have nth: "\<forall>m<length ups1.
      ups1 ! m = chunk_record ''vid'' m ([chunk_abc, chunk_d] ! m)
                   (embedding_of svc0 ([chunk_abc, chunk_d] ! m))
      \<and> v_id (ups1 ! m) = ''vid'' @ ''_chunk_'' @ str_nat m"
    by (elim conjE)
  from inst have ix: "indexes (snd run2) = indexes (snd run1)"
    by (elim conjE)
  from len obtain a b where ab: "ups1 = [a, b]"
    by (cases ups1; cases "tl ups1") auto
  have "v_id (ups1 ! 0) = ''vid'' @ ''_chunk_'' @ str_nat 0"
    "v_id (ups1 ! 1) = ''vid'' @ ''_chunk_'' @ str_nat 1"
    using nth len by (simp_all add: chunk_record_def chunk_id_def)
  then have "v_id a = ''vid_chunk_0''" "v_id b = ''vid_chunk_1''"
    unfolding ab by (simp_all add: str_nat.simps digit_char_def)
  then have ids: "map v_id ups1 = [''vid_chunk_0'', ''vid_chunk_1'']"
    unfolding ab by simp
  from ok ids ix show ?thesis
    unfolding ups1_def run2_def run1_def by simp
qed

end
